theory Spec2Isabelle
  imports Complex_Main "HOL-Library.Multiset"
begin

section \<open>The settings editor: key paths, rendering and rebuild\<close>

text \<open>
  A shallow embedding of \<^verbatim>\<open>pages/2_Settings_Editor.py\<close>: the widget identifier
  joined from a key path, the values \<^verbatim>\<open>render_setting\<close> hands to the widgets, and
  \<^verbatim>\<open>build_updated_settings\<close>, which rebuilds the settings mapping from the session
  state. Python strings are lists of code points; the model covers the code points
  U+0000 to U+00FF, one \<^typ>\<open>char\<close> each, and gives the string methods the meaning
  Python gives them on that range.
\<close>

subsection \<open>Python string methods\<close>

definition isspace :: "char \<Rightarrow> bool" where
  \<comment> \<open>\<^verbatim>\<open>str.isspace\<close> on one code point: TAB to CR, FS to US, space, NEL and NBSP.\<close>
  "isspace c =
     (let n = (of_char c :: nat)
      in (9 \<le> n \<and> n \<le> 13) \<or> (28 \<le> n \<and> n \<le> 31) \<or> n = 32 \<or> n = 133 \<or> n = 160)"

definition strip :: "string \<Rightarrow> string" where
  \<comment> \<open>\<^verbatim>\<open>s.strip()\<close>: whitespace removed at both ends.\<close>
  "strip s = rev (dropWhile isspace (rev (dropWhile isspace s)))"

definition is_line_boundary :: "char \<Rightarrow> bool" where
  \<comment> \<open>The line boundaries of \<^verbatim>\<open>str.splitlines\<close>: LF, VT, FF, CR, FS, GS, RS and NEL.\<close>
  "is_line_boundary c =
     (let n = (of_char c :: nat)
      in (10 \<le> n \<and> n \<le> 13) \<or> (28 \<le> n \<and> n \<le> 30) \<or> n = 133)"

fun split_lines :: "bool \<Rightarrow> string \<Rightarrow> string \<Rightarrow> string list" where
  \<comment> \<open>The scan of \<^verbatim>\<open>str.splitlines\<close>: whether the last character was a CR, the line
      read so far, the text left. CR LF is one boundary; no empty last line.\<close>
  "split_lines after_cr cur [] = (if cur = [] then [] else [cur])"
| "split_lines after_cr cur (c # cs) =
     (if after_cr \<and> c = CHR 0x0A then split_lines False cur cs
      else if is_line_boundary c then cur # split_lines (c = CHR 0x0D) [] cs
      else split_lines False (cur @ [c]) cs)"

definition splitlines :: "string \<Rightarrow> string list" where
  "splitlines s = split_lines False [] s"

definition is_decimal :: "char \<Rightarrow> bool" where
  \<comment> \<open>The decimal digits \<^verbatim>\<open>int()\<close> reads: 0 to 9.\<close>
  "is_decimal c = (let n = (of_char c :: nat) in 48 \<le> n \<and> n \<le> 57)"

definition isdigit_char :: "char \<Rightarrow> bool" where
  \<comment> \<open>\<^verbatim>\<open>str.isdigit\<close> on one code point: 0 to 9 and the superscripts two, three, one.\<close>
  "isdigit_char c =
     (let n = (of_char c :: nat) in (48 \<le> n \<and> n \<le> 57) \<or> n = 178 \<or> n = 179 \<or> n = 185)"

definition isdigit :: "string \<Rightarrow> bool" where
  \<comment> \<open>\<^verbatim>\<open>s.isdigit()\<close>: at least one character, and all of them digits.\<close>
  "isdigit s = (s \<noteq> [] \<and> list_all isdigit_char s)"

definition digit_val :: "char \<Rightarrow> nat" where
  "digit_val c = of_char c - 48"

definition digit_char :: "nat \<Rightarrow> char" where
  "digit_char d = char_of (48 + d)"

fun str_of_nat :: "nat \<Rightarrow> string" where
  "str_of_nat n = (if n < 10 then [digit_char n] else str_of_nat (n div 10) @ [digit_char (n mod 10)])"

declare str_of_nat.simps [simp del]

definition str_of_int :: "int \<Rightarrow> string" where
  \<comment> \<open>\<^verbatim>\<open>str(n)\<close> of an int.\<close>
  "str_of_int i = (if i < 0 then CHR ''-'' # str_of_nat (nat (- i)) else str_of_nat (nat i))"

fun str_join :: "string \<Rightarrow> string list \<Rightarrow> string" where
  \<comment> \<open>\<^verbatim>\<open>sep.join(parts)\<close>.\<close>
  "str_join sep [] = []"
| "str_join sep [x] = x"
| "str_join sep (x # y # ys) = x @ sep @ str_join sep (y # ys)"

definition lower_char :: "char \<Rightarrow> char" where
  \<comment> \<open>\<^verbatim>\<open>str.lower\<close> on one code point: A to Z and the capital letters U+00C0 to U+00DE
      (the multiplication sign apart) move up by 32.\<close>
  "lower_char c =
     (let n = (of_char c :: nat)
      in if (65 \<le> n \<and> n \<le> 90) \<or> (192 \<le> n \<and> n \<le> 222 \<and> n \<noteq> 215) then char_of (n + 32) else c)"

definition lower :: "string \<Rightarrow> string" where
  "lower s = map lower_char s"

subsection \<open>Exceptions and integer parsing\<close>

datatype pyerr =
    ValueError | TypeError | OverflowError | IndexError | KeyError | YAMLError
  | StreamlitAPIException | DuplicateWidgetID

fun parse_digits :: "bool \<Rightarrow> nat \<Rightarrow> string \<Rightarrow> nat option" where
  \<comment> \<open>The digits of an \<^verbatim>\<open>int()\<close> literal: decimal digits, single underscores between
      them only. The flag says that the last character was a digit.\<close>
  "parse_digits prev acc [] = (if prev then Some acc else None)"
| "parse_digits prev acc (c # cs) =
     (if is_decimal c then parse_digits True (10 * acc + digit_val c) cs
      else if c = CHR ''_'' \<and> prev then parse_digits False acc cs
      else None)"

definition is_int_space :: "char \<Rightarrow> bool" where
  \<comment> \<open>The whitespace \<^verbatim>\<open>int()\<close> skips around a literal: TAB to CR, space, NEL and NBSP
      (not FS to US, which \<^verbatim>\<open>strip()\<close> removes).\<close>
  "is_int_space c =
     (let n = (of_char c :: nat) in (9 \<le> n \<and> n \<le> 13) \<or> n = 32 \<or> n = 133 \<or> n = 160)"

definition int_of_str :: "string \<Rightarrow> pyerr + int" where
  \<comment> \<open>\<^verbatim>\<open>int(s)\<close> of a str: surrounding whitespace dropped, an optional sign, digits;
      anything else raises ValueError. (CPython's limit on the number of digits, 4300
      unless configured otherwise, is left out: the ints of the model are unbounded.)\<close>
  "int_of_str s =
     (case rev (dropWhile is_int_space (rev (dropWhile is_int_space s))) of
        [] \<Rightarrow> Inl ValueError
      | c # cs \<Rightarrow>
          if c = CHR ''-'' then
            (case parse_digits False 0 cs of None \<Rightarrow> Inl ValueError | Some n \<Rightarrow> Inr (- int n))
          else if c = CHR ''+'' then
            (case parse_digits False 0 cs of None \<Rightarrow> Inl ValueError | Some n \<Rightarrow> Inr (int n))
          else
            (case parse_digits False 0 (c # cs) of None \<Rightarrow> Inl ValueError | Some n \<Rightarrow> Inr (int n)))"

subsection \<open>Values, the Python runtime and the session state\<close>

text \<open>
  A settings value as \<^verbatim>\<open>response.json()\<close> returns it: a dict (its items in
  insertion order), bool, int, float, str, list or None. The widget values of the session
  state are values of the same kind. The float type \<open>'f\<close> is left open.
\<close>

datatype 'f val =
    VDict "(string \<times> 'f val) list"
  | VBool bool
  | VInt int
  | VFloat 'f
  | VStr string
  | VList "'f val list"
  | VNone

text \<open>
  What the module takes from outside its own text: the float arithmetic of the
  interpreter (with the literals \<^verbatim>\<open>0.0\<close> and \<^verbatim>\<open>1.0\<close>, the order of floats and the
  floats Streamlit accepts as JavaScript numbers), the \<^verbatim>\<open>str()\<close> of a list or dict,
  and PyYAML with the flag the \<^verbatim>\<open>import\<close> at the top of the module sets.
\<close>

record 'f runtime =
  float_truth :: "'f \<Rightarrow> bool"
  float_trunc :: "'f \<Rightarrow> pyerr + int"
  float_of_int :: "int \<Rightarrow> pyerr + 'f"
  float_of_str :: "string \<Rightarrow> pyerr + 'f"
  float_repr :: "'f \<Rightarrow> string"
  float_zero :: "'f"
  float_one :: "'f"
  float_less :: "'f \<Rightarrow> 'f \<Rightarrow> bool"
  float_js_safe :: "'f \<Rightarrow> bool"
  container_repr :: "'f val \<Rightarrow> string"
  PYYAML_AVAILABLE :: bool
  yaml_dump :: "'f val \<Rightarrow> pyerr + string"
  yaml_safe_load :: "string \<Rightarrow> pyerr + 'f val"

type_synonym 'f session_state = "string \<rightharpoonup> 'f val"

fun py_bool :: "'f runtime \<Rightarrow> 'f val \<Rightarrow> pyerr + bool" where
  \<comment> \<open>\<^verbatim>\<open>bool(v)\<close>, a call like \<^verbatim>\<open>int(v)\<close> and \<^verbatim>\<open>float(v)\<close>: the truth value of
      \<^verbatim>\<open>v\<close>, or the exception raised.\<close>
  "py_bool rt (VDict items) = Inr (items \<noteq> [])"
| "py_bool rt (VBool b) = Inr b"
| "py_bool rt (VInt i) = Inr (i \<noteq> 0)"
| "py_bool rt (VFloat x) = Inr (float_truth rt x)"
| "py_bool rt (VStr s) = Inr (s \<noteq> [])"
| "py_bool rt (VList xs) = Inr (xs \<noteq> [])"
| "py_bool rt VNone = Inr False"

fun py_int :: "'f runtime \<Rightarrow> 'f val \<Rightarrow> pyerr + int" where
  \<comment> \<open>\<^verbatim>\<open>int(v)\<close>.\<close>
  "py_int rt (VBool b) = Inr (if b then 1 else 0)"
| "py_int rt (VInt i) = Inr i"
| "py_int rt (VFloat x) = float_trunc rt x"
| "py_int rt (VStr s) = int_of_str s"
| "py_int rt (VDict items) = Inl TypeError"
| "py_int rt (VList xs) = Inl TypeError"
| "py_int rt VNone = Inl TypeError"

fun py_float :: "'f runtime \<Rightarrow> 'f val \<Rightarrow> pyerr + 'f" where
  \<comment> \<open>\<^verbatim>\<open>float(v)\<close>.\<close>
  "py_float rt (VBool b) = float_of_int rt (if b then 1 else 0)"
| "py_float rt (VInt i) = float_of_int rt i"
| "py_float rt (VFloat x) = Inr x"
| "py_float rt (VStr s) = float_of_str rt s"
| "py_float rt (VDict items) = Inl TypeError"
| "py_float rt (VList xs) = Inl TypeError"
| "py_float rt VNone = Inl TypeError"

fun py_str :: "'f runtime \<Rightarrow> 'f val \<Rightarrow> string" where
  \<comment> \<open>\<^verbatim>\<open>str(v)\<close>.\<close>
  "py_str rt (VStr s) = s"
| "py_str rt (VBool b) = (if b then ''True'' else ''False'')"
| "py_str rt (VInt i) = str_of_int i"
| "py_str rt (VFloat x) = float_repr rt x"
| "py_str rt VNone = ''None''"
| "py_str rt (VDict items) = container_repr rt (VDict items)"
| "py_str rt (VList xs) = container_repr rt (VList xs)"

fun is_dict :: "'f val \<Rightarrow> bool" where
  "is_dict (VDict items) = True"
| "is_dict v = False"

fun is_list :: "'f val \<Rightarrow> bool" where
  "is_list (VList xs) = True"
| "is_list v = False"

subsection \<open>The widget identifier\<close>

definition join_path :: "string list \<Rightarrow> string" where
  \<comment> \<open>\<^verbatim>\<open>'_'.join(map(str, key_path))\<close>, lines 77 and 156; the keys of a JSON object are
      strings, which \<^verbatim>\<open>str\<close> returns as they are.\<close>
  "join_path key_path = str_join ''_'' key_path"

subsection \<open>build_updated_settings\<close>

text \<open>
  What the rebuild reports, in the order of the calls: \<^verbatim>\<open>st.error\<close> in the two
  handlers (lines 200 and 204, with the key whose label the message shows) and
  \<^verbatim>\<open>logging.warning\<close> (lines 186, 192, 197, 201 and 205).
\<close>

datatype 'f event =
    StError_invalid_input string "'f val" pyerr
  | StError_processing string pyerr
  | Warn_invalid_serial string string
  | Warn_list_reverted string string
  | Warn_unhandled_type string "'f val"
  | Warn_ValueError string "'f val" pyerr
  | Warn_Exception string "'f val" pyerr

fun dict_set :: "(string \<times> 'v) list \<Rightarrow> string \<Rightarrow> 'v \<Rightarrow> (string \<times> 'v) list" where
  \<comment> \<open>\<^verbatim>\<open>d[key] = value\<close>: a key already there keeps its place, a new one goes last.\<close>
  "dict_set [] key v = [(key, v)]"
| "dict_set ((k, x) # d) key v = (if k = key then (k, v) # d else (k, x) # dict_set d key v)"

fun serial_numbers_loop ::
  "string \<Rightarrow> string list \<Rightarrow> int list \<Rightarrow> 'f event list \<Rightarrow> (pyerr + int list) \<times> 'f event list" where
  \<comment> \<open>Lines 181 to 186: the loop over the lines, with \<^verbatim>\<open>processed_list\<close> and the
      warnings logged so far; the \<^verbatim>\<open>int()\<close> of line 184 can raise.\<close>
  "serial_numbers_loop widget_key [] processed_list evs = (Inr processed_list, evs)"
| "serial_numbers_loop widget_key (line # rest) processed_list evs =
     (let stripped_line = strip line in
      if isdigit stripped_line then
        (case int_of_str stripped_line of
           Inl e \<Rightarrow> (Inl e, evs)
         | Inr n \<Rightarrow> serial_numbers_loop widget_key rest (processed_list @ [n]) evs)
      else if stripped_line \<noteq> [] then
        serial_numbers_loop widget_key rest processed_list
          (evs @ [Warn_invalid_serial stripped_line widget_key])
      else serial_numbers_loop widget_key rest processed_list evs)"

definition string_list_keys :: "string list" where
  "string_list_keys = [''sender_email'', ''ad_identifiers'', ''regular_engagement_skip_senders'']"

definition coerce_list ::
  "'f runtime \<Rightarrow> string \<Rightarrow> string \<Rightarrow> 'f val \<Rightarrow> 'f val \<Rightarrow> (pyerr + 'f val) \<times> 'f event list" where
  \<comment> \<open>Lines 173 to 193: the original value is a list.\<close>
  "coerce_list rt key widget_key original_value widget_value =
     (if key \<in> set string_list_keys then
        (Inr (VList (map VStr (filter (\<lambda>l. l \<noteq> []) (map strip (splitlines (py_str rt widget_value)))))), [])
      else if key = ''serial_numbers'' then
        (case serial_numbers_loop widget_key (splitlines (py_str rt widget_value)) [] [] of
           (Inl e, evs) \<Rightarrow> (Inl e, evs)
         | (Inr processed_list, evs) \<Rightarrow> (Inr (VList (map VInt processed_list)), evs))
      else if key = ''session_types'' \<and> PYYAML_AVAILABLE rt then
        (case yaml_safe_load rt (py_str rt widget_value) of
           Inl e \<Rightarrow> (Inl e, [])
         | Inr parsed_yaml \<Rightarrow> (Inr (if is_list parsed_yaml then parsed_yaml else original_value), []))
      else (Inr original_value, [Warn_list_reverted key widget_key]))"

definition coerce ::
  "'f runtime \<Rightarrow> string \<Rightarrow> string \<Rightarrow> 'f val \<Rightarrow> 'f val \<Rightarrow> (pyerr + 'f val) \<times> 'f event list" where
  \<comment> \<open>The body of the \<^verbatim>\<open>try\<close>, lines 163 to 198: the new value or the exception raised,
      and the warnings logged on the way.\<close>
  "coerce rt key widget_key original_value widget_value =
     (case original_value of
        VBool b \<Rightarrow> (map_sum id VBool (py_bool rt widget_value), [])
      | VInt i \<Rightarrow> (map_sum id VInt (py_int rt widget_value), [])
      | VFloat x \<Rightarrow> (map_sum id VFloat (py_float rt widget_value), [])
      | _ \<Rightarrow>
          if key = ''group_id'' then
            (Inr (if strip (py_str rt widget_value) \<noteq> [] then VStr (strip (py_str rt widget_value))
                  else VNone), [])
          else
            (case original_value of
               VStr s \<Rightarrow> (Inr (VStr (py_str rt widget_value)), [])
             | VList xs \<Rightarrow> coerce_list rt key widget_key original_value widget_value
             | VNone \<Rightarrow> (Inr VNone, [])
             | _ \<Rightarrow> (Inr widget_value, [Warn_unhandled_type key widget_value])))"

definition rebuild_leaf ::
  "'f runtime \<Rightarrow> string \<Rightarrow> string \<Rightarrow> 'f val \<Rightarrow> 'f val \<Rightarrow> 'f val \<times> 'f event list" where
  \<comment> \<open>Lines 161 to 206: the \<^verbatim>\<open>try\<close> with its two handlers, which restore the original
      value.\<close>
  "rebuild_leaf rt key widget_key original_value widget_value =
     (case coerce rt key widget_key original_value widget_value of
        (Inr v, evs) \<Rightarrow> (v, evs)
      | (Inl ValueError, evs) \<Rightarrow>
          (original_value,
           evs @ [StError_invalid_input key widget_value ValueError,
                  Warn_ValueError widget_key widget_value ValueError])
      | (Inl e, evs) \<Rightarrow>
          (original_value,
           evs @ [StError_processing key e, Warn_Exception widget_key widget_value e]))"

definition rebuild_entry ::
  "'f runtime \<Rightarrow> 'f session_state \<Rightarrow> string \<Rightarrow> string \<Rightarrow> 'f val \<Rightarrow> 'f val \<times> 'f event list" where
  \<comment> \<open>Lines 160 to 208, for a value that is no dict: the widget's value coerced, or the
      original value when the session state has no such widget.\<close>
  "rebuild_entry rt ss key widget_key original_value =
     (case ss widget_key of
        Some widget_value \<Rightarrow> rebuild_leaf rt key widget_key original_value widget_value
      | None \<Rightarrow> (original_value, []))"

fun build_updated_settings ::
    "'f runtime \<Rightarrow> 'f session_state \<Rightarrow> 'f val \<Rightarrow> string list \<Rightarrow> 'f val \<times> 'f event list"
  and build_items ::
    "'f runtime \<Rightarrow> 'f session_state \<Rightarrow> (string \<times> 'f val) list \<Rightarrow> string list \<Rightarrow>
     (string \<times> 'f val) list \<Rightarrow> 'f event list \<Rightarrow> (string \<times> 'f val) list \<times> 'f event list"
  where
  \<comment> \<open>\<^verbatim>\<open>build_items\<close> is the loop of line 154 over the items left, with
      \<^verbatim>\<open>updated_dict\<close> and the events so far.\<close>
  "build_updated_settings rt ss (VDict items) key_path =
     (case build_items rt ss items key_path [] [] of
        (updated_dict, evs) \<Rightarrow> (VDict updated_dict, evs))"
| "build_updated_settings rt ss (VBool b) key_path = (VBool b, [])"
| "build_updated_settings rt ss (VInt i) key_path = (VInt i, [])"
| "build_updated_settings rt ss (VFloat x) key_path = (VFloat x, [])"
| "build_updated_settings rt ss (VStr s) key_path = (VStr s, [])"
| "build_updated_settings rt ss (VList xs) key_path = (VList xs, [])"
| "build_updated_settings rt ss VNone key_path = (VNone, [])"
| "build_items rt ss [] key_path updated_dict evs = (updated_dict, evs)"
| "build_items rt ss ((key, original_value) # rest) key_path updated_dict evs =
     (let current_key_path = key_path @ [key];
          widget_key = join_path current_key_path
      in if is_dict original_value then
           (case build_updated_settings rt ss original_value current_key_path of
              (v, es) \<Rightarrow> build_items rt ss rest key_path (dict_set updated_dict key v) (evs @ es))
         else
           (case rebuild_entry rt ss key widget_key original_value of
              (v, es) \<Rightarrow> build_items rt ss rest key_path (dict_set updated_dict key v) (evs @ es)))"

subsection \<open>build_updated_settings, with its reads of the session state\<close>

text \<open>
  The same function once more, equation by equation, with one more result: the
  identifiers it looks up in the session state (the test of line 160), in order.
\<close>

fun build_updated_settings_reads ::
    "'f runtime \<Rightarrow> 'f session_state \<Rightarrow> 'f val \<Rightarrow> string list \<Rightarrow>
     ('f val \<times> 'f event list) \<times> string list"
  and build_items_reads ::
    "'f runtime \<Rightarrow> 'f session_state \<Rightarrow> (string \<times> 'f val) list \<Rightarrow> string list \<Rightarrow>
     (string \<times> 'f val) list \<Rightarrow> 'f event list \<Rightarrow> string list \<Rightarrow>
     ((string \<times> 'f val) list \<times> 'f event list) \<times> string list"
  where
  "build_updated_settings_reads rt ss (VDict items) key_path =
     (case build_items_reads rt ss items key_path [] [] [] of
        ((updated_dict, evs), reads) \<Rightarrow> ((VDict updated_dict, evs), reads))"
| "build_updated_settings_reads rt ss (VBool b) key_path = ((VBool b, []), [])"
| "build_updated_settings_reads rt ss (VInt i) key_path = ((VInt i, []), [])"
| "build_updated_settings_reads rt ss (VFloat x) key_path = ((VFloat x, []), [])"
| "build_updated_settings_reads rt ss (VStr s) key_path = ((VStr s, []), [])"
| "build_updated_settings_reads rt ss (VList xs) key_path = ((VList xs, []), [])"
| "build_updated_settings_reads rt ss VNone key_path = ((VNone, []), [])"
| "build_items_reads rt ss [] key_path updated_dict evs reads = ((updated_dict, evs), reads)"
| "build_items_reads rt ss ((key, original_value) # rest) key_path updated_dict evs reads =
     (let current_key_path = key_path @ [key];
          widget_key = join_path current_key_path
      in if is_dict original_value then
           (case build_updated_settings_reads rt ss original_value current_key_path of
              ((v, es), rs) \<Rightarrow>
                build_items_reads rt ss rest key_path (dict_set updated_dict key v) (evs @ es)
                  (reads @ rs))
         else
           (case rebuild_entry rt ss key widget_key original_value of
              (v, es) \<Rightarrow>
                build_items_reads rt ss rest key_path (dict_set updated_dict key v) (evs @ es)
                  (reads @ [widget_key])))"

subsection \<open>render_setting\<close>

text \<open>
  Of a widget the model keeps the \<^verbatim>\<open>key\<close> and the value it is created with. A call
  of a Streamlit widget raises in two cases that the arguments of \<^verbatim>\<open>render_setting\<close>
  can reach: \<^verbatim>\<open>st.number_input\<close> raises when the value is below \<^verbatim>\<open>min_value\<close>,
  above \<^verbatim>\<open>max_value\<close> or no JavaScript number (for an int: beyond
  \<^verbatim>\<open>2**53 - 1\<close> in absolute value), and every widget raises when its key was given
  to a widget before.
  Labels, steps, formats and help texts are left out.
\<close>

type_synonym 'f widgets = "(string \<times> 'f val) list"

fun starts_with :: "string \<Rightarrow> string \<Rightarrow> bool" where
  "starts_with [] s = True"
| "starts_with (p # ps) [] = False"
| "starts_with (p # ps) (c # cs) = (p = c \<and> starts_with ps cs)"

fun contains :: "string \<Rightarrow> string \<Rightarrow> bool" where
  \<comment> \<open>\<^verbatim>\<open>sub in s\<close> for two strings.\<close>
  "contains sub [] = (sub = [])"
| "contains sub (c # cs) = (starts_with sub (c # cs) \<or> contains sub cs)"

definition int_bounds :: "string \<Rightarrow> int option \<times> int option" where
  \<comment> \<open>Lines 92 to 95: \<^verbatim>\<open>min_val\<close> and \<^verbatim>\<open>max_val\<close> of an int, three assignments in
      turn.\<close>
  "int_bounds key =
     (let (min_val, max_val) = (if key = ''threads'' then (Some 1, Some 4) else (None, None));
          min_val = (if contains ''interval'' key \<or> contains ''wait'' key \<or> contains ''age'' key
                     then Some 0 else min_val);
          min_val = (if key = ''backup_interval'' then Some 5 else min_val)
      in (min_val, max_val))"

definition number_input_int :: "int \<Rightarrow> int option \<times> int option \<Rightarrow> bool" where
  \<comment> \<open>The int values \<^verbatim>\<open>st.number_input\<close> takes with these bounds.\<close>
  "number_input_int i bounds =
     ((case fst bounds of None \<Rightarrow> True | Some min_val \<Rightarrow> min_val \<le> i) \<and>
      (case snd bounds of None \<Rightarrow> True | Some max_val \<Rightarrow> i \<le> max_val) \<and>
      - (2 ^ 53 - 1) \<le> i \<and> i \<le> 2 ^ 53 - 1)"

definition float_bounded :: "string \<Rightarrow> bool" where
  \<comment> \<open>Lines 99 and 100: the keys whose float gets \<^verbatim>\<open>min_value=0.0\<close> and
      \<^verbatim>\<open>max_value=1.0\<close>.\<close>
  "float_bounded key =
     (contains ''rate'' key \<or> contains ''ctr'' key \<or> contains ''probability'' key
      \<or> key = ''random_variance'')"

definition number_input_float :: "'f runtime \<Rightarrow> string \<Rightarrow> 'f \<Rightarrow> bool" where
  \<comment> \<open>The float values \<^verbatim>\<open>st.number_input\<close> takes under this key.\<close>
  "number_input_float rt key x =
     (float_js_safe rt x \<and>
      (if float_bounded key
       then \<not> float_less rt x (float_zero rt) \<and> \<not> float_less rt (float_one rt) x
       else True))"

fun widget_accepts :: "'f runtime \<Rightarrow> string \<Rightarrow> 'f val \<Rightarrow> bool" where
  \<comment> \<open>Whether the widget of lines 89 to 147 takes its arguments: only the two number
      inputs can refuse them.\<close>
  "widget_accepts rt key (VInt i) = number_input_int i (int_bounds key)"
| "widget_accepts rt key (VFloat x) = number_input_float rt key x"
| "widget_accepts rt key v = True"

fun index_of :: "'a \<Rightarrow> 'a list \<Rightarrow> nat" where
  \<comment> \<open>\<^verbatim>\<open>options.index(value)\<close>, called for a value of the list only.\<close>
  "index_of x [] = 0"
| "index_of x (y # ys) = (if x = y then 0 else Suc (index_of x ys))"

definition mode_options :: "string list" where
  "mode_options = [''prod'', ''dev'']"

definition log_level_options :: "string list" where
  "log_level_options = [''debug'', ''info'', ''warning'', ''error'', ''critical'']"

definition list_keys_textarea :: "string list" where
  "list_keys_textarea =
     [''sender_email'', ''ad_identifiers'', ''regular_engagement_skip_senders'', ''serial_numbers'']"

definition str_widget_value :: "string \<Rightarrow> string \<Rightarrow> string" where
  \<comment> \<open>Lines 103 to 112: a select box shows \<^verbatim>\<open>options[index]\<close>; the three text inputs
      (group_id, file paths, other strings) show the value.\<close>
  "str_widget_value key s =
     (if key = ''mode'' then
        mode_options ! (if s \<in> set mode_options then index_of s mode_options else 0)
      else if key = ''log_level'' then
        log_level_options !
          (if lower s \<in> set log_level_options then index_of (lower s) log_level_options else 1)
      else s)"

definition list_widget_value :: "'f runtime \<Rightarrow> string \<Rightarrow> 'f val list \<Rightarrow> string" where
  \<comment> \<open>Lines 114 to 138: the text area of the four line-per-entry keys, the YAML text area
      of session_types (\<^verbatim>\<open>str(value)\<close> when the dump raises), and the read-only text
      input of every other list.\<close>
  "list_widget_value rt key xs =
     (if key \<in> set list_keys_textarea then str_join [CHR 0x0A] (map (py_str rt) xs)
      else if key = ''session_types'' \<and> PYYAML_AVAILABLE rt \<and> list_all is_dict xs then
        (case yaml_dump rt (VList xs) of
           Inr yaml_text \<Rightarrow> yaml_text
         | Inl dump_err \<Rightarrow> py_str rt (VList xs))
      else py_str rt (VList xs))"

fun leaf_widget_value :: "'f runtime \<Rightarrow> string \<Rightarrow> 'f val \<Rightarrow> 'f val" where
  \<comment> \<open>Lines 89 to 147: the \<^verbatim>\<open>value=\<close> of the one widget a value that is no dict gets
      (a dict gets no widget; the last equation is never used).\<close>
  "leaf_widget_value rt key (VBool b) = VBool b"
| "leaf_widget_value rt key (VInt i) = VInt i"
| "leaf_widget_value rt key (VFloat x) = VFloat x"
| "leaf_widget_value rt key (VStr s) = VStr (str_widget_value key s)"
| "leaf_widget_value rt key (VList xs) = VStr (list_widget_value rt key xs)"
| "leaf_widget_value rt key VNone = VStr (if key = ''group_id'' then [] else ''None'')"
| "leaf_widget_value rt key (VDict items) = VDict items"

definition render_widget ::
  "'f runtime \<Rightarrow> string list \<Rightarrow> 'f val \<Rightarrow> 'f widgets \<Rightarrow> pyerr + 'f widgets" where
  \<comment> \<open>Lines 75 to 147 for a value that is no dict, after the widgets \<^verbatim>\<open>ws\<close> of the run
      so far: \<^verbatim>\<open>key_path[-1]\<close> raises on the empty path, the call of the widget raises
      on a value out of its bounds and on a key already used.\<close>
  "render_widget rt key_path v ws =
     (if key_path = [] then Inl IndexError
      else if \<not> widget_accepts rt (last key_path) v then Inl StreamlitAPIException
      else if join_path key_path \<in> set (map fst ws) then Inl DuplicateWidgetID
      else Inr (ws @ [(join_path key_path, leaf_widget_value rt (last key_path) v)]))"

fun render_setting ::
    "'f runtime \<Rightarrow> string list \<Rightarrow> 'f val \<Rightarrow> 'f widgets \<Rightarrow> pyerr + 'f widgets"
  and render_items ::
    "'f runtime \<Rightarrow> string list \<Rightarrow> (string \<times> 'f val) list \<Rightarrow> 'f widgets \<Rightarrow> pyerr + 'f widgets"
  where
  \<comment> \<open>\<^verbatim>\<open>render_items\<close> is the loop of line 141; the first exception ends the run.\<close>
  "render_setting rt key_path (VDict items) ws =
     (if key_path = [] then Inl IndexError else render_items rt key_path items ws)"
| "render_setting rt key_path (VBool b) ws = render_widget rt key_path (VBool b) ws"
| "render_setting rt key_path (VInt i) ws = render_widget rt key_path (VInt i) ws"
| "render_setting rt key_path (VFloat x) ws = render_widget rt key_path (VFloat x) ws"
| "render_setting rt key_path (VStr s) ws = render_widget rt key_path (VStr s) ws"
| "render_setting rt key_path (VList xs) ws = render_widget rt key_path (VList xs) ws"
| "render_setting rt key_path VNone ws = render_widget rt key_path VNone ws"
| "render_items rt key_path [] ws = Inr ws"
| "render_items rt key_path ((sub_key, sub_value) # rest) ws =
     (case render_setting rt (key_path @ [sub_key]) sub_value ws of
        Inl e \<Rightarrow> Inl e
      | Inr ws' \<Rightarrow> render_items rt key_path rest ws')"

subsection \<open>The page: what is rendered, and in which order\<close>

definition common_keys :: "string list" where
  "common_keys = [''global'', ''google_sheets'', ''newsletters'', ''engagement'', ''query_settings'']"

fun render_newsletters ::
  "'f runtime \<Rightarrow> string \<Rightarrow> (string \<times> 'f val) list \<Rightarrow> 'f widgets \<Rightarrow> pyerr + 'f widgets" where
  \<comment> \<open>The loop of line 260.\<close>
  "render_newsletters rt top_key [] ws = Inr ws"
| "render_newsletters rt top_key ((nl_key, nl_value) # rest) ws =
     (case render_setting rt [top_key, nl_key] nl_value ws of
        Inl e \<Rightarrow> Inl e
      | Inr ws' \<Rightarrow> render_newsletters rt top_key rest ws')"

definition render_top ::
  "'f runtime \<Rightarrow> string \<Rightarrow> 'f val \<Rightarrow> 'f widgets \<Rightarrow> pyerr + 'f widgets" where
  \<comment> \<open>Lines 258 to 265, for one common key of the settings.\<close>
  "render_top rt top_key v ws =
     (case v of
        VDict items \<Rightarrow>
          if top_key = ''newsletters'' then render_newsletters rt top_key items ws
          else render_setting rt [top_key] v ws
      | _ \<Rightarrow> render_setting rt [top_key] v ws)"

fun render_common ::
  "'f runtime \<Rightarrow> (string \<times> 'f val) list \<Rightarrow> string list \<Rightarrow> 'f widgets \<Rightarrow> pyerr + 'f widgets" where
  \<comment> \<open>The loop of line 255 over the common keys left.\<close>
  "render_common rt settings [] ws = Inr ws"
| "render_common rt settings (top_key # ks) ws =
     (case map_of settings top_key of
        None \<Rightarrow> render_common rt settings ks ws
      | Some v \<Rightarrow>
          (case render_top rt top_key v ws of
             Inl e \<Rightarrow> Inl e
           | Inr ws' \<Rightarrow> render_common rt settings ks ws'))"

fun render_others ::
  "'f runtime \<Rightarrow> (string \<times> 'f val) list \<Rightarrow> string list \<Rightarrow> 'f widgets \<Rightarrow> pyerr + 'f widgets" where
  \<comment> \<open>The loop of line 271 over the other keys left; \<^verbatim>\<open>settings[top_key]\<close> raises
      KeyError on a key that is not there.\<close>
  "render_others rt settings [] ws = Inr ws"
| "render_others rt settings (top_key # ks) ws =
     (case map_of settings top_key of
        None \<Rightarrow> Inl KeyError
      | Some v \<Rightarrow>
          (case render_setting rt [top_key] v ws of
             Inl e \<Rightarrow> Inl e
           | Inr ws' \<Rightarrow> render_others rt settings ks ws'))"

definition render_page :: "'f runtime \<Rightarrow> (string \<times> 'f val) list \<Rightarrow> pyerr + 'f widgets" where
  \<comment> \<open>Lines 253 to 272: the common keys in their fixed order, then every other top-level
      key in the order of the settings.\<close>
  "render_page rt settings =
     (case render_common rt settings common_keys [] of
        Inl e \<Rightarrow> Inl e
      | Inr ws \<Rightarrow>
          render_others rt settings (filter (\<lambda>k. k \<notin> set common_keys) (map fst settings)) ws)"

definition session_after_render ::
  "(string \<times> 'f val) list \<Rightarrow> 'f widgets \<Rightarrow> 'f session_state" where
  \<comment> \<open>The session state after the page has rendered the settings with no edit. The page
      has stored the settings and None under two keys of its own before any widget is
      made (lines 225 to 236), and a key that is set keeps its value; every other widget
      key holds the value the widget was created with.\<close>
  "session_after_render settings ws =
     (\<lambda>k. if k = ''current_settings_data'' then Some (VDict settings)
          else if k = ''settings_fetch_error'' then Some VNone
          else map_of ws k)"

subsection \<open>Key paths in a settings tree\<close>

fun uniq_keys :: "'f val \<Rightarrow> bool"
  and uniq_items :: "(string \<times> 'f val) list \<Rightarrow> bool" where
  \<comment> \<open>A Python dict holds each key once, at every level of the tree.\<close>
  "uniq_keys (VDict items) = (distinct (map fst items) \<and> uniq_items items)"
| "uniq_keys (VBool b) = True"
| "uniq_keys (VInt i) = True"
| "uniq_keys (VFloat x) = True"
| "uniq_keys (VStr s) = True"
| "uniq_keys (VList xs) = True"
| "uniq_keys VNone = True"
| "uniq_items [] = True"
| "uniq_items ((k, v) # rest) = (uniq_keys v \<and> uniq_items rest)"

fun get_path :: "'f val \<Rightarrow> string list \<Rightarrow> 'f val option" where
  \<comment> \<open>\<^verbatim>\<open>T[k1][k2]...\<close>: the value at a key path, if the path is in the tree.\<close>
  "get_path v [] = Some v"
| "get_path (VDict items) (k # ks) =
     (case map_of items k of None \<Rightarrow> None | Some v \<Rightarrow> get_path v ks)"
| "get_path v (k # ks) = None"

fun visited :: "string list \<Rightarrow> 'f val \<Rightarrow> (string list \<times> 'f val) list"
  and visited_items :: "string list \<Rightarrow> (string \<times> 'f val) list \<Rightarrow> (string list \<times> 'f val) list"
  where
  \<comment> \<open>The entries that are no dicts, with their key paths, in the order in which the
      loop of line 154 and its recursive calls reach them.\<close>
  "visited key_path (VDict items) = visited_items key_path items"
| "visited key_path (VBool b) = [(key_path, VBool b)]"
| "visited key_path (VInt i) = [(key_path, VInt i)]"
| "visited key_path (VFloat x) = [(key_path, VFloat x)]"
| "visited key_path (VStr s) = [(key_path, VStr s)]"
| "visited key_path (VList xs) = [(key_path, VList xs)]"
| "visited key_path VNone = [(key_path, VNone)]"
| "visited_items key_path [] = []"
| "visited_items key_path ((key, original_value) # rest) =
     visited (key_path @ [key]) original_value @ visited_items key_path rest"

definition typeof :: "'f val \<Rightarrow> string" where
  \<comment> \<open>\<^verbatim>\<open>type(v).__name__\<close>.\<close>
  "typeof v =
     (case v of
        VDict items \<Rightarrow> ''dict'' | VBool b \<Rightarrow> ''bool'' | VInt i \<Rightarrow> ''int'' | VFloat x \<Rightarrow> ''float''
      | VStr s \<Rightarrow> ''str'' | VList xs \<Rightarrow> ''list'' | VNone \<Rightarrow> ''NoneType'')"

subsection \<open>Notions the properties are stated with\<close>

definition entry_events ::
  "'f runtime \<Rightarrow> 'f session_state \<Rightarrow> (string list \<times> 'f val) list \<Rightarrow> 'f event list" where
  \<comment> \<open>The events of the entries of a traversal, one entry after the other.\<close>
  "entry_events rt ss vs =
     concat (map (\<lambda>(p, v). snd (rebuild_entry rt ss (last p) (join_path p) v)) vs)"

definition rebuilt_value ::
  "'f runtime \<Rightarrow> 'f session_state \<Rightarrow> string list \<Rightarrow> string \<Rightarrow> 'f val \<Rightarrow> 'f val" where
  \<comment> \<open>What one pass of the loop of line 154 stores under \<^verbatim>\<open>key\<close>.\<close>
  "rebuilt_value rt ss key_path key v =
     (if is_dict v then fst (build_updated_settings rt ss v (key_path @ [key]))
      else fst (rebuild_entry rt ss key (join_path (key_path @ [key])) v))"

definition widgets_of :: "'f runtime \<Rightarrow> (string list \<times> 'f val) list \<Rightarrow> 'f widgets" where
  \<comment> \<open>The widgets of a list of entries: the joined key path and the value shown.\<close>
  "widgets_of rt vs = map (\<lambda>(p, v). (join_path p, leaf_widget_value rt (last p) v)) vs"

definition top_widgets :: "'f runtime \<Rightarrow> (string \<times> 'f val) list \<Rightarrow> string \<Rightarrow> 'f widgets" where
  \<comment> \<open>The widgets the page renders for one top-level key.\<close>
  "top_widgets rt settings k =
     (case map_of settings k of None \<Rightarrow> [] | Some v \<Rightarrow> widgets_of rt (visited [k] v))"

definition top_visited ::
  "(string \<times> 'f val) list \<Rightarrow> string \<Rightarrow> (string list \<times> 'f val) list" where
  \<comment> \<open>The entries below one top-level key.\<close>
  "top_visited settings k = (case map_of settings k of None \<Rightarrow> [] | Some v \<Rightarrow> visited [k] v)"

definition renders_from ::
  "'f runtime \<Rightarrow> 'f widgets \<Rightarrow> (string list \<times> 'f val) list \<Rightarrow> bool" where
  \<comment> \<open>Entries that can all be given a widget after the widgets \<^verbatim>\<open>ws\<close>: every int and
      float is within the bounds of its number input, no two entries have one identifier
      and none has the key of a widget of \<^verbatim>\<open>ws\<close>.\<close>
  "renders_from rt ws vs =
     (list_all (\<lambda>(p, v). widget_accepts rt (last p) v) vs
      \<and> distinct (map (\<lambda>(p, v). join_path p) vs)
      \<and> list_all (\<lambda>(p, v). join_path p \<notin> set (map fst ws)) vs)"

datatype shape = Leaf | Node "(string \<times> shape) list"

fun shape_of :: "'f val \<Rightarrow> shape"
  and shape_of_items :: "(string \<times> 'f val) list \<Rightarrow> (string \<times> shape) list" where
  \<comment> \<open>The keys of a tree, level by level and in order.\<close>
  "shape_of (VDict items) = Node (shape_of_items items)"
| "shape_of (VBool b) = Leaf"
| "shape_of (VInt i) = Leaf"
| "shape_of (VFloat x) = Leaf"
| "shape_of (VStr s) = Leaf"
| "shape_of (VList xs) = Leaf"
| "shape_of VNone = Leaf"
| "shape_of_items [] = []"
| "shape_of_items ((k, v) # rest) = (k, shape_of v) # shape_of_items rest"

definition plain_line :: "'f val \<Rightarrow> bool" where
  \<comment> \<open>A list entry that is one line of a text area as it stands: a non-empty string with
      no whitespace at its ends and no line boundary in it.\<close>
  "plain_line v =
     (case v of VStr s \<Rightarrow> s \<noteq> [] \<and> strip s = s \<and> \<not> list_ex is_line_boundary s | _ \<Rightarrow> False)"

definition nonneg_int :: "'f val \<Rightarrow> bool" where
  "nonneg_int v = (case v of VInt i \<Rightarrow> 0 \<le> i | _ \<Rightarrow> False)"

definition yaml_round_trip :: "'f runtime \<Rightarrow> 'f val list \<Rightarrow> bool" where
  \<comment> \<open>PyYAML reads the text shown for the list back as that list, as something that is
      no list, or not at all.\<close>
  "yaml_round_trip rt xs =
     (case yaml_safe_load rt (list_widget_value rt ''session_types'' xs) of
        Inr (VList ys) \<Rightarrow> ys = xs
      | _ \<Rightarrow> True)"

definition shown_unchanged :: "'f runtime \<Rightarrow> string \<Rightarrow> 'f val \<Rightarrow> bool" where
  \<comment> \<open>The entries whose widget shows the value itself, in a form the rebuild reads back
      to the same value.\<close>
  "shown_unchanged rt key v =
     (case v of
        VStr s \<Rightarrow>
          if key = ''group_id'' then s \<noteq> [] \<and> strip s = s
          else if key = ''mode'' then s \<in> set mode_options
          else if key = ''log_level'' then s \<in> set log_level_options
          else True
      | VList xs \<Rightarrow>
          if key = ''group_id'' then False
          else if key \<in> set string_list_keys then list_all plain_line xs
          else if key = ''serial_numbers'' then list_all nonneg_int xs
          else if key = ''session_types'' \<and> PYYAML_AVAILABLE rt then yaml_round_trip rt xs
          else True
      | _ \<Rightarrow> True)"

definition example_runtime :: "rat runtime" where
  \<comment> \<open>A runtime for the examples, with rational numbers as floats. It answers as CPython
      and PyYAML do on the calls the examples make (truth value, truncation, the float of
      a small int, the order of small numbers, two YAML documents and one dump) and raises
      on every other call.\<close>
  "example_runtime =
     \<lparr> float_truth = (\<lambda>x. x \<noteq> 0),
       float_trunc = (\<lambda>x. Inr (if 0 \<le> x then \<lfloor>x\<rfloor> else \<lceil>x\<rceil>)),
       float_of_int = (\<lambda>i. Inr (of_int i)),
       float_of_str = (\<lambda>s. Inl ValueError),
       float_repr = (\<lambda>x. []),
       float_zero = 0,
       float_one = 1,
       float_less = (\<lambda>x y. x < y),
       float_js_safe = (\<lambda>x. True),
       container_repr = (\<lambda>v. []),
       PYYAML_AVAILABLE = True,
       yaml_dump = (\<lambda>v. if v = VList [VDict [(''name'', VStr ''a'')]]
                          then Inr (''- name: a'' @ [CHR 0x0A]) else Inl YAMLError),
       yaml_safe_load = (\<lambda>s. if s = ''42'' then Inr (VInt 42)
                               else if s = ''- name: a'' @ [CHR 0x0A]
                               then Inr (VList [VDict [(''name'', VStr ''a'')]])
                               else Inl YAMLError) \<rparr>"

fun is_st_error :: "'f event \<Rightarrow> bool" where
  \<comment> \<open>The events shown to the user; the others are lines of the log.\<close>
  "is_st_error (StError_invalid_input key w e) = True"
| "is_st_error (StError_processing key e) = True"
| "is_st_error ev = False"

definition decimal_value :: "string \<Rightarrow> int" where
  \<comment> \<open>The number a string of decimal digits denotes.\<close>
  "decimal_value s = int (foldl (\<lambda>a c. 10 * a + digit_val c) 0 s)"

definition example_settings :: "(string \<times> rat val) list" where
  "example_settings =
     [(''global'', VDict [(''threads'', VInt 2), (''mode'', VStr ''prod''),
                          (''rate'', VFloat (1 / 2)), (''debug'', VBool True)]),
      (''ad_identifiers'', VList [VStr ''a'', VStr ''b'']),
      (''serial_numbers'', VList [VInt 1, VInt 2]),
      (''session_types'', VList [VDict [(''name'', VStr ''a'')]]),
      (''group_id'', VNone)]"

definition example_widgets :: "rat widgets" where
  "example_widgets =
     [(''global_threads'', VInt 2), (''global_mode'', VStr ''prod''),
      (''global_rate'', VFloat (1 / 2)), (''global_debug'', VBool True),
      (''ad_identifiers'', VStr (''a'' @ [CHR 0x0A] @ ''b'')),
      (''serial_numbers'', VStr (''1'' @ [CHR 0x0A] @ ''2'')),
      (''session_types'', VStr (''- name: a'' @ [CHR 0x0A])),
      (''group_id'', VStr [])]"

section \<open>Properties\<close>

subsection \<open>The rebuild, entry by entry\<close>

text \<open>
  The events of a rebuild are those of its entries in the order of the traversal, and
  over a dict with each key once every pass of the loop appends one item.
\<close>

lemma entry_events_simps [simp]:
  "entry_events rt ss [] = []"
  "entry_events rt ss (vs @ ws) = entry_events rt ss vs @ entry_events rt ss ws"
  "entry_events rt ss ((p, v) # vs) =
     snd (rebuild_entry rt ss (last p) (join_path p) v) @ entry_events rt ss vs"
  by (simp_all add: entry_events_def)

lemma visited_not_dict: "\<not> is_dict v \<Longrightarrow> visited key_path v = [(key_path, v)]"
  by (cases v) simp_all

lemma build_events:
  "snd (build_updated_settings rt ss v key_path) =
     (if is_dict v then entry_events rt ss (visited key_path v) else [])"
  "snd (build_items rt ss items key_path updated_dict evs) =
     evs @ entry_events rt ss (visited_items key_path items)"
proof (induction rt ss v key_path and rt ss items key_path updated_dict evs
    rule: build_updated_settings_build_items.induct)
  case (1 rt ss items key_path)
  then show ?case by (simp add: case_prod_beta)
next
  case (9 rt ss key original_value rest key_path updated_dict evs)
  show ?case
  proof (cases "is_dict original_value")
    case True
    obtain v es where b: "build_updated_settings rt ss original_value (key_path @ [key]) = (v, es)"
      by (cases "build_updated_settings rt ss original_value (key_path @ [key])")
    from 9(1)[OF refl refl True] b True
    have es: "es = entry_events rt ss (visited (key_path @ [key]) original_value)" by simp
    from 9(2)[OF refl refl True b[symmetric]] b True es show ?thesis by (simp add: case_prod_beta)
  next
    case False
    obtain v es where b: "rebuild_entry rt ss key (join_path (key_path @ [key])) original_value = (v, es)"
      by (cases "rebuild_entry rt ss key (join_path (key_path @ [key])) original_value")
    from 9(3)[OF refl refl False b[symmetric]] b False show ?thesis
      by (simp add: visited_not_dict case_prod_beta)
  qed
qed simp_all

lemma dict_set_fresh: "key \<notin> fst ` set d \<Longrightarrow> dict_set d key v = d @ [(key, v)]"
  by (induction d) auto

lemma build_items_value:
  "distinct (map fst items) \<Longrightarrow> fst ` set items \<inter> fst ` set updated_dict = {} \<Longrightarrow>
   fst (build_items rt ss items key_path updated_dict evs) =
     updated_dict @ map (\<lambda>(k, v). (k, rebuilt_value rt ss key_path k v)) items"
proof (induction items arbitrary: updated_dict evs)
  case Nil
  then show ?case by simp
next
  case (Cons kv items)
  obtain key ov where kv: "kv = (key, ov)" by (cases kv)
  have fresh: "key \<notin> fst ` set updated_dict" using Cons.prems kv by auto
  have d: "distinct (map fst items)" using Cons.prems by simp
  have disj: "fst ` set items \<inter> fst ` set (updated_dict @ [(key, x)]) = {}" for x
    using Cons.prems kv by auto
  show ?case
    using Cons.IH[OF d disj] fresh kv
    by (simp add: rebuilt_value_def dict_set_fresh case_prod_beta Let_def)
qed

lemma build_dict_value:
  "distinct (map fst items) \<Longrightarrow>
   fst (build_updated_settings rt ss (VDict items) key_path) =
     VDict (map (\<lambda>(k, v). (k, rebuilt_value rt ss key_path k v)) items)"
  using build_items_value[of items "[]" rt ss key_path "[]"] by (simp add: case_prod_beta)


lemma map_of_map_keyed:
  "map_of (map (\<lambda>(k, v). (k, g k v)) items) k = map_option (g k) (map_of items k)"
  by (induction items) auto

lemma uniq_items_map_of:
  "uniq_items items \<Longrightarrow> map_of items k = Some v \<Longrightarrow> uniq_keys v"
  by (induction items) (auto split: if_splits)

lemma get_path_is_dict: "get_path v (k # ks) = Some w \<Longrightarrow> is_dict v"
  by (cases v) simp_all

lemma get_path_rebuilt:
  "uniq_keys T \<Longrightarrow> p \<noteq> [] \<Longrightarrow> get_path T p = Some v \<Longrightarrow>
   get_path (fst (build_updated_settings rt ss T key_path)) p =
     Some (rebuilt_value rt ss (key_path @ butlast p) (last p) v)"
proof (induction p arbitrary: T key_path)
  case Nil
  then show ?case by simp
next
  case (Cons k ks)
  from Cons.prems(3) obtain items where T: "T = VDict items"
    by (cases T) simp_all
  from Cons.prems(3) T obtain v' where v': "map_of items k = Some v'" "get_path v' ks = Some v"
    by (auto split: option.splits)
  have d: "distinct (map fst items)" and u: "uniq_keys v'"
    using Cons.prems(1) T v'(1) by (auto intro: uniq_items_map_of)
  have step: "get_path (fst (build_updated_settings rt ss T key_path)) (k # ks) =
      get_path (rebuilt_value rt ss key_path k v') ks"
  proof -
    have "fst (build_updated_settings rt ss T key_path) =
        VDict (map (\<lambda>(k, v). (k, rebuilt_value rt ss key_path k v)) items)"
      unfolding T using d by (rule build_dict_value)
    then show ?thesis
      by (simp add: map_of_map_keyed v'(1))
  qed
  show ?case
  proof (cases ks)
    case Nil
    with v'(2) step show ?thesis by simp
  next
    case (Cons k' ks')
    with v'(2) have dv: "is_dict v'" by (auto dest: get_path_is_dict)
    have "get_path (fst (build_updated_settings rt ss v' (key_path @ [k]))) ks =
        Some (rebuilt_value rt ss ((key_path @ [k]) @ butlast ks) (last ks) v)"
      using Cons.IH[OF u _ v'(2)] Cons by simp
    with step dv Cons show ?thesis by (simp add: rebuilt_value_def)
  qed
qed

lemma rebuilt_value_leaf:
  "\<not> is_dict v \<Longrightarrow> p \<noteq> [] \<Longrightarrow>
   rebuilt_value rt ss (key_path @ butlast p) (last p) v =
     fst (rebuild_entry rt ss (last p) (join_path (key_path @ p)) v)"
  by (simp add: rebuilt_value_def)

subsection \<open>Bool entries\<close>

text \<open>
  C10. An entry whose original value is a bool and whose identifier is in the session
  state is rebuilt to \<^verbatim>\<open>bool(widget_value)\<close>, whatever the widget value is among the
  values of the model (the types of the settings and of the widgets): False for False,
  0, the empty string, the empty list, the empty dict and None, for a float what the
  runtime answers (in CPython, False for zero only), and True for every other value. The
  call \<^verbatim>\<open>bool()\<close> returns on every such value, so the \<^verbatim>\<open>try\<close> body returns a value
  and no exception; the entry reports no event, no handler runs, and the original value
  is not put back.
\<close>

theorem bool_leaf_is_truth_value:
  assumes "uniq_keys T" and "p \<noteq> []" and "get_path T p = Some (VBool b)"
    and "ss (join_path (key_path @ p)) = Some w"
  shows
    "(let truth = (case w of
                     VDict items \<Rightarrow> items \<noteq> []
                   | VBool c \<Rightarrow> c
                   | VInt i \<Rightarrow> i \<noteq> 0
                   | VFloat x \<Rightarrow> float_truth rt x
                   | VStr s \<Rightarrow> s \<noteq> []
                   | VList xs \<Rightarrow> xs \<noteq> []
                   | VNone \<Rightarrow> False)
      in py_bool rt w = Inr truth
       \<and> coerce rt (last p) (join_path (key_path @ p)) (VBool b) w = (Inr (VBool truth), [])
       \<and> rebuild_entry rt ss (last p) (join_path (key_path @ p)) (VBool b) = (VBool truth, [])
       \<and> get_path (fst (build_updated_settings rt ss T key_path)) p = Some (VBool truth))"
proof -
  define truth where "truth =
     (case w of VDict items \<Rightarrow> items \<noteq> [] | VBool c \<Rightarrow> c | VInt i \<Rightarrow> i \<noteq> 0
      | VFloat x \<Rightarrow> float_truth rt x | VStr s \<Rightarrow> s \<noteq> [] | VList xs \<Rightarrow> xs \<noteq> []
      | VNone \<Rightarrow> False)"
  have t: "py_bool rt w = Inr truth"
    unfolding truth_def by (cases w) simp_all
  have c: "coerce rt (last p) (join_path (key_path @ p)) (VBool b) w = (Inr (VBool truth), [])"
    by (simp add: coerce_def t)
  have e: "rebuild_entry rt ss (last p) (join_path (key_path @ p)) (VBool b) = (VBool truth, [])"
    using assms(4) c by (simp add: rebuild_entry_def rebuild_leaf_def)
  have "get_path (fst (build_updated_settings rt ss T key_path)) p =
      Some (rebuilt_value rt ss (key_path @ butlast p) (last p) (VBool b))"
    using assms(1-3) by (rule get_path_rebuilt)
  with e assms(2) have g: "get_path (fst (build_updated_settings rt ss T key_path)) p = Some (VBool truth)"
    by (simp add: rebuilt_value_leaf)
  from t c e g show ?thesis
    unfolding truth_def Let_def by blast
qed

theorem bool_leaf_is_truth_value_witness:
  "uniq_keys (VDict [(''global'', VDict [(''debug'', VBool True), (''verbose'', VBool False)])])
   \<and> get_path (VDict [(''global'', VDict [(''debug'', VBool True), (''verbose'', VBool False)])])
         [''global'', ''debug''] = Some (VBool True)
   \<and> [''global_debug'' \<mapsto> VStr [], ''global_verbose'' \<mapsto> VStr ''no'']
         (join_path ([] @ [''global'', ''debug''])) = Some (VStr [])
   \<and> build_updated_settings example_runtime
         [''global_debug'' \<mapsto> VStr [], ''global_verbose'' \<mapsto> VStr ''no'']
         (VDict [(''global'', VDict [(''debug'', VBool True), (''verbose'', VBool False)])]) []
       = (VDict [(''global'', VDict [(''debug'', VBool False), (''verbose'', VBool True)])], [])
   \<and> map (py_bool example_runtime)
         [VStr [], VStr ''0'', VInt 0, VInt 2, VNone, VList [], VList [VNone], VDict [],
          VBool False, VBool True, VFloat 0, VFloat (1 / 2)]
       = map Inr [False, True, False, True, False, False, True, False, False, True, False, True]"
  using bool_leaf_is_truth_value [of
      "VDict [(''global'', VDict [(''debug'', VBool True), (''verbose'', VBool False)])]"
      "[''global'', ''debug'']" True
      "[''global_debug'' \<mapsto> VStr [], ''global_verbose'' \<mapsto> VStr ''no'']" "[]" "VStr []"
      example_runtime]
  by (simp add: join_path_def rebuild_entry_def rebuild_leaf_def coerce_def example_runtime_def)

subsection \<open>Types and keys of the rebuilt tree\<close>

lemma typeof_simps [simp]:
  "typeof (VDict items) = ''dict''" "typeof (VBool b) = ''bool''" "typeof (VInt i) = ''int''"
  "typeof (VFloat x) = ''float''" "typeof (VStr s) = ''str''" "typeof (VList xs) = ''list''"
  "typeof VNone = ''NoneType''"
  by (simp_all add: typeof_def)

lemma is_dict_typeof: "is_dict v \<longleftrightarrow> typeof v = ''dict''"
  by (cases v) simp_all

lemma is_list_typeof: "is_list v \<Longrightarrow> typeof v = ''list''"
  by (cases v) simp_all

lemma coerce_list_typeof:
  "coerce_list rt key wk (VList xs) w = (Inr v', evs) \<Longrightarrow> typeof v' = ''list''"
  by (auto simp: coerce_list_def is_list_typeof split: if_splits prod.splits sum.splits)

lemma coerce_typeof:
  assumes "coerce rt key wk v w = (Inr v', evs)" and "\<not> is_dict v"
    and "key \<noteq> ''group_id'' \<or> typeof v = ''bool'' \<or> typeof v = ''int'' \<or> typeof v = ''float''"
  shows "typeof v' = typeof v"
proof (cases v)
  case (VList xs)
  with assms show ?thesis by (auto simp: coerce_def dest: coerce_list_typeof)
qed (use assms in \<open>auto simp: coerce_def map_sum_def split: sum.splits\<close>)

lemma coerce_group_id_typeof:
  assumes "coerce rt ''group_id'' wk v w = (Inr v', evs)"
  shows "typeof v' = typeof v \<or> typeof v' = ''str'' \<or> typeof v' = ''NoneType''"
  using assms by (cases v) (auto simp: coerce_def map_sum_def split: sum.splits if_splits)

lemma rebuild_leaf_cases:
  "(\<exists>v' evs. coerce rt key wk v w = (Inr v', evs) \<and> rebuild_leaf rt key wk v w = (v', evs))
   \<or> fst (rebuild_leaf rt key wk v w) = v"
  by (cases "coerce rt key wk v w")
     (auto simp: rebuild_leaf_def split: sum.splits pyerr.splits)

lemma rebuild_entry_typeof:
  assumes "\<not> is_dict v"
    and "key \<noteq> ''group_id'' \<or> typeof v = ''bool'' \<or> typeof v = ''int'' \<or> typeof v = ''float''"
  shows "typeof (fst (rebuild_entry rt ss key wk v)) = typeof v"
proof (cases "ss wk")
  case None
  then show ?thesis by (simp add: rebuild_entry_def)
next
  case (Some w)
  from rebuild_leaf_cases[of rt key wk v w] show ?thesis
  proof
    assume "\<exists>v' evs. coerce rt key wk v w = (Inr v', evs) \<and> rebuild_leaf rt key wk v w = (v', evs)"
    then obtain v' evs where "coerce rt key wk v w = (Inr v', evs)" "rebuild_leaf rt key wk v w = (v', evs)"
      by blast
    with coerce_typeof[OF _ assms] Some show ?thesis by (simp add: rebuild_entry_def)
  next
    assume "fst (rebuild_leaf rt key wk v w) = v"
    with Some show ?thesis by (simp add: rebuild_entry_def)
  qed
qed

lemma rebuild_entry_group_id_typeof:
  "typeof (fst (rebuild_entry rt ss ''group_id'' wk v)) = typeof v
   \<or> typeof (fst (rebuild_entry rt ss ''group_id'' wk v)) = ''str''
   \<or> typeof (fst (rebuild_entry rt ss ''group_id'' wk v)) = ''NoneType''"
proof (cases "ss wk")
  case None
  then show ?thesis by (simp add: rebuild_entry_def)
next
  case (Some w)
  from rebuild_leaf_cases[of rt "''group_id''" wk v w] show ?thesis
  proof
    assume "\<exists>v' evs. coerce rt ''group_id'' wk v w = (Inr v', evs) \<and> rebuild_leaf rt ''group_id'' wk v w = (v', evs)"
    then obtain v' evs where "coerce rt ''group_id'' wk v w = (Inr v', evs)" "rebuild_leaf rt ''group_id'' wk v w = (v', evs)"
      by blast
    with coerce_group_id_typeof[of rt wk v w v' evs] Some show ?thesis by (simp add: rebuild_entry_def)
  next
    assume "fst (rebuild_leaf rt ''group_id'' wk v w) = v"
    with Some show ?thesis by (simp add: rebuild_entry_def)
  qed
qed

lemma rebuild_entry_not_dict:
  "\<not> is_dict v \<Longrightarrow> \<not> is_dict (fst (rebuild_entry rt ss key wk v))"
proof (cases "key = ''group_id''")
  case True
  assume "\<not> is_dict v"
  with rebuild_entry_group_id_typeof[of rt ss wk v] True show ?thesis
    by (auto simp: is_dict_typeof)
next
  case False
  assume "\<not> is_dict v"
  with rebuild_entry_typeof[of v key rt ss wk] False show ?thesis
    by (simp add: is_dict_typeof)
qed

lemma shape_of_leaf: "\<not> is_dict v \<Longrightarrow> shape_of v = Leaf"
  by (cases v) simp_all

lemma build_is_dict: "is_dict v \<Longrightarrow> is_dict (fst (build_updated_settings rt ss v key_path))"
  by (cases v) (simp_all add: case_prod_beta)

lemma shape_rebuilt:
  "uniq_keys v \<Longrightarrow> shape_of (fst (build_updated_settings rt ss v key_path)) = shape_of v"
  "uniq_items items \<Longrightarrow>
     shape_of_items (map (\<lambda>(k, v). (k, rebuilt_value rt ss key_path k v)) items) = shape_of_items items"
proof (induction v and items arbitrary: key_path and key_path rule: shape_of_shape_of_items.induct)
  case (1 items)
  then have "fst (build_updated_settings rt ss (VDict items) key_path) =
      VDict (map (\<lambda>(k, v). (k, rebuilt_value rt ss key_path k v)) items)"
    by (simp only: uniq_keys.simps build_dict_value)
  with 1 show ?case by simp
next
  case (9 k v rest)
  have "shape_of (rebuilt_value rt ss key_path k v) = shape_of v"
  proof (cases "is_dict v")
    case True
    with 9 show ?thesis by (simp add: rebuilt_value_def)
  next
    case False
    then show ?thesis
      by (simp add: rebuilt_value_def shape_of_leaf rebuild_entry_not_dict)
  qed
  with 9 show ?case by simp
qed simp_all

lemma shape_items_map_of:
  "shape_of_items xs = shape_of_items ys \<Longrightarrow>
   (case map_of xs k of
      None \<Rightarrow> map_of ys k = None
    | Some a \<Rightarrow> (\<exists>b. map_of ys k = Some b \<and> shape_of a = shape_of b))"
proof (induction xs arbitrary: ys)
  case Nil
  then show ?case by (cases ys) auto
next
  case (Cons x xs)
  obtain kx vx where x: "x = (kx, vx)" by (cases x)
  from Cons.prems x obtain vy ys' where ys: "ys = (kx, vy) # ys'" "shape_of vx = shape_of vy"
      "shape_of_items xs = shape_of_items ys'"
    by (cases ys) auto
  from Cons.IH[OF ys(3)] x ys show ?case by (auto split: option.splits)
qed

lemma shape_is_dict: "shape_of a = shape_of b \<Longrightarrow> is_dict a \<longleftrightarrow> is_dict b"
  by (cases a; cases b) simp_all

lemma same_shape_same_paths:
  "shape_of a = shape_of b \<Longrightarrow> (get_path a p = None) \<longleftrightarrow> (get_path b p = None)"
proof (induction p arbitrary: a b)
  case Nil
  then show ?case by simp
next
  case (Cons k ks)
  show ?case
  proof (cases a)
    case (VDict xs)
    with Cons.prems obtain ys where b: "b = VDict ys" "shape_of_items xs = shape_of_items ys"
      by (cases b) simp_all
    from shape_items_map_of[OF b(2), of k] Cons.IH VDict b(1) show ?thesis
      by (auto split: option.splits)
  qed (use Cons.prems shape_is_dict[of a b] in \<open>cases b; simp\<close>)+
qed

text \<open>
  C4. Over a settings tree (a dict that holds each key once, at every level) and any
  session state, the rebuilt tree has the keys of the original at every level, in the
  same order, and a value that is no dict where the original has one: the two trees have
  the same shape, and a key path leads somewhere in one exactly if it does in the other.
\<close>

theorem rebuild_keeps_every_key:
  assumes "uniq_keys T"
  shows "shape_of (fst (build_updated_settings rt ss T key_path)) = shape_of T
    \<and> (\<forall>p. get_path (fst (build_updated_settings rt ss T key_path)) p = None
             \<longleftrightarrow> get_path T p = None)"
proof -
  have s: "shape_of (fst (build_updated_settings rt ss T key_path)) = shape_of T"
    using assms by (rule shape_rebuilt(1))
  from same_shape_same_paths[OF s] s show ?thesis by blast
qed

theorem rebuild_keeps_every_key_witness:
  "uniq_keys (VDict [(''global'', VDict [(''threads'', VInt 2), (''mode'', VStr ''prod'')]),
                     (''group_id'', VNone)])
   \<and> shape_of (fst (build_updated_settings example_runtime
          [''global_threads'' \<mapsto> VStr ''abc'', ''group_id'' \<mapsto> VStr ''g1'']
          (VDict [(''global'', VDict [(''threads'', VInt 2), (''mode'', VStr ''prod'')]),
                  (''group_id'', VNone)]) []))
       = Node [(''global'', Node [(''threads'', Leaf), (''mode'', Leaf)]), (''group_id'', Leaf)]"
  using rebuild_keeps_every_key [of "VDict [(''global'', VDict [(''threads'', VInt 2), (''mode'', VStr ''prod'')]),
                     (''group_id'', VNone)]" example_runtime
      "[''global_threads'' \<mapsto> VStr ''abc'', ''group_id'' \<mapsto> VStr ''g1'']" "[]"]
  by simp

text \<open>
  C3, amended. At every key path of a settings tree the rebuilt tree has a value, and
  that value has the type of the original value whenever the last key is not
  \<^verbatim>\<open>group_id\<close>, and for a bool, int, float or dict under any key. An entry named
  \<^verbatim>\<open>group_id\<close> that is a string, a list or None keeps its type or is rebuilt to a string
  or to None (lines 169 and 170 come before the tests for str and list).
\<close>

theorem rebuild_types:
  assumes "uniq_keys T" and "p \<noteq> []" and "get_path T p = Some v"
  shows "\<exists>v'. get_path (fst (build_updated_settings rt ss T key_path)) p = Some v'
      \<and> (last p \<noteq> ''group_id'' \<or> typeof v = ''bool'' \<or> typeof v = ''int'' \<or> typeof v = ''float''
           \<or> typeof v = ''dict'' \<longrightarrow> typeof v' = typeof v)
      \<and> (typeof v' = typeof v \<or> typeof v' = ''str'' \<or> typeof v' = ''NoneType'')"
proof -
  let ?v' = "rebuilt_value rt ss (key_path @ butlast p) (last p) v"
  have g: "get_path (fst (build_updated_settings rt ss T key_path)) p = Some ?v'"
    using assms by (rule get_path_rebuilt)
  show ?thesis
  proof (cases "is_dict v")
    case True
    then have "typeof ?v' = typeof v"
      using build_is_dict[of v rt ss "key_path @ butlast p @ [last p]"]
      by (simp add: rebuilt_value_def is_dict_typeof)
    with g show ?thesis by simp
  next
    case False
    then have v': "?v' = fst (rebuild_entry rt ss (last p) (join_path (key_path @ p)) v)"
      using assms(2) by (simp add: rebuilt_value_leaf)
    have a: "typeof ?v' = typeof v"
      if "last p \<noteq> ''group_id'' \<or> typeof v = ''bool'' \<or> typeof v = ''int'' \<or> typeof v = ''float''"
      unfolding v' using False that by (rule rebuild_entry_typeof)
    have b: "typeof ?v' = typeof v \<or> typeof ?v' = ''str'' \<or> typeof ?v' = ''NoneType''"
    proof (cases "last p = ''group_id''")
      case True
      then show ?thesis unfolding v' using rebuild_entry_group_id_typeof by simp
    next
      case False
      with a show ?thesis by simp
    qed
    from False have "typeof v \<noteq> ''dict''" by (simp add: is_dict_typeof)
    with g a b show ?thesis by auto
  qed
qed

theorem rebuild_types_witness:
  "uniq_keys (VDict [(''global'', VDict [(''threads'', VInt 2)])])
   \<and> get_path (VDict [(''global'', VDict [(''threads'', VInt 2)])]) [''global'', ''threads'']
       = Some (VInt 2)
   \<and> last [''global'', ''threads''] \<noteq> ''group_id''
   \<and> get_path (fst (build_updated_settings example_runtime [''global_threads'' \<mapsto> VStr ''3'']
          (VDict [(''global'', VDict [(''threads'', VInt 2)])]) [])) [''global'', ''threads'']
       = Some (VInt 3)
   \<and> typeof (VInt 3 :: rat val) = typeof (VInt 2 :: rat val)"
  using rebuild_types [of "VDict [(''global'', VDict [(''threads'', VInt 2)])]"
      "[''global'', ''threads'']" "VInt 2" example_runtime "[''global_threads'' \<mapsto> VStr ''3'']" "[]"]
  by (simp add: join_path_def rebuild_entry_def rebuild_leaf_def coerce_def int_of_str_def is_int_space_def
      strip_def isspace_def is_decimal_def digit_val_def)

text \<open>
  The claim as stated fails on the entry \<^verbatim>\<open>group_id\<close>: a string edited to the empty
  text is rebuilt to None.
\<close>

theorem type_preservation_counterexample:
  "get_path (VDict [(''group_id'', VStr ''abc123'')]) [''group_id''] = Some (VStr ''abc123'')
   \<and> get_path (fst (build_updated_settings example_runtime [''group_id'' \<mapsto> VStr '''']
          (VDict [(''group_id'', VStr ''abc123'')]) [])) [''group_id''] = Some VNone
   \<and> typeof (VNone :: rat val) \<noteq> typeof (VStr ''abc123'' :: rat val)"
  by (simp add: join_path_def rebuild_entry_def rebuild_leaf_def coerce_def strip_def)

subsection \<open>The entry group_id\<close>

text \<open>
  C9. An entry named \<^verbatim>\<open>group_id\<close> whose original value is a string or None, and whose
  identifier is in the session state, is rebuilt to the edited value (its \<^verbatim>\<open>str()\<close>)
  with the whitespace at both ends removed, and to None when nothing is left; no event
  is reported. In particular \<^verbatim>\<open>{"group_id": "abc123"}\<close> edited to the empty text is
  rebuilt to \<^verbatim>\<open>{"group_id": None}\<close>.
\<close>

theorem group_id_trimmed_or_none:
  assumes "uniq_keys T" and "p \<noteq> []" and "last p = ''group_id''"
    and "get_path T p = Some v" and "v = VNone \<or> (\<exists>s. v = VStr s)"
    and "ss (join_path (key_path @ p)) = Some w"
  shows "rebuild_entry rt ss (last p) (join_path (key_path @ p)) v =
        (if strip (py_str rt w) = [] then VNone else VStr (strip (py_str rt w)), [])
    \<and> get_path (fst (build_updated_settings rt ss T key_path)) p =
        Some (if strip (py_str rt w) = [] then VNone else VStr (strip (py_str rt w)))
    \<and> fst (build_updated_settings rt [''group_id'' \<mapsto> VStr ''''] (VDict [(''group_id'', VStr ''abc123'')]) [])
        = VDict [(''group_id'', VNone)]"
proof -
  have e: "rebuild_entry rt ss (last p) (join_path (key_path @ p)) v =
      (if strip (py_str rt w) = [] then VNone else VStr (strip (py_str rt w)), [])"
    using assms(3,5,6) by (auto simp: rebuild_entry_def rebuild_leaf_def coerce_def)
  have nd: "\<not> is_dict v" using assms(5) by auto
  have "get_path (fst (build_updated_settings rt ss T key_path)) p =
      Some (rebuilt_value rt ss (key_path @ butlast p) (last p) v)"
    using assms(1,2,4) by (rule get_path_rebuilt)
  with e nd assms(2) have g: "get_path (fst (build_updated_settings rt ss T key_path)) p =
      Some (if strip (py_str rt w) = [] then VNone else VStr (strip (py_str rt w)))"
    by (simp add: rebuilt_value_leaf)
  have "fst (build_updated_settings rt [''group_id'' \<mapsto> VStr ''''] (VDict [(''group_id'', VStr ''abc123'')]) [])
        = VDict [(''group_id'', VNone)]"
    by (simp add: join_path_def rebuild_entry_def rebuild_leaf_def coerce_def strip_def)
  with e g show ?thesis by simp
qed

theorem group_id_trimmed_or_none_witness:
  "uniq_keys (VDict [(''global'', VDict [(''group_id'', VNone)])])
   \<and> last [''global'', ''group_id''] = ''group_id''
   \<and> get_path (VDict [(''global'', VDict [(''group_id'', VNone)])]) [''global'', ''group_id''] = Some VNone
   \<and> [''global_group_id'' \<mapsto> VStr '' g7 ''] (join_path ([] @ [''global'', ''group_id'']))
       = Some (VStr '' g7 '')
   \<and> get_path (fst (build_updated_settings example_runtime [''global_group_id'' \<mapsto> VStr '' g7 '']
          (VDict [(''global'', VDict [(''group_id'', VNone)])]) [])) [''global'', ''group_id'']
       = Some (VStr ''g7'')"
  using group_id_trimmed_or_none [of "VDict [(''global'', VDict [(''group_id'', VNone)])]"
      "[''global'', ''group_id'']" VNone "[''global_group_id'' \<mapsto> VStr '' g7 '']" "[]"
      "VStr '' g7 ''" example_runtime]
  by (simp add: join_path_def strip_def isspace_def)

subsection \<open>A failed int entry\<close>

lemma visited_paths:
  "(q, x) \<in> set (visited key_path v) \<Longrightarrow> \<exists>s. q = key_path @ s"
  "(q, x) \<in> set (visited_items key_path items) \<Longrightarrow> \<exists>k s. q = key_path @ k # s \<and> k \<in> fst ` set items"
proof (induction key_path v and key_path items rule: visited_visited_items.induct)
  case (9 key_path key original_value rest)
  from 9(3) have "(q, x) \<in> set (visited (key_path @ [key]) original_value)
      \<or> (q, x) \<in> set (visited_items key_path rest)" by simp
  then show ?case
  proof
    assume "(q, x) \<in> set (visited (key_path @ [key]) original_value)"
    from 9(1)[OF this] show ?thesis by auto
  next
    assume "(q, x) \<in> set (visited_items key_path rest)"
    from 9(2)[OF this] show ?thesis by auto
  qed
qed auto

lemma visited_distinct:
  "uniq_keys (v :: 'f val) \<Longrightarrow> distinct (map fst (visited key_path v))"
  "distinct (map fst items) \<Longrightarrow> uniq_items (items :: (string \<times> 'f val) list) \<Longrightarrow>
   distinct (map fst (visited_items key_path items))"
proof (induction key_path v and key_path items rule: visited_visited_items.induct)
  case (9 key_path key original_value rest)
  have a: "distinct (map fst (visited (key_path @ [key]) original_value))"
    using 9 by simp
  have b: "distinct (map fst (visited_items key_path rest))"
    using 9 by simp
  have "q \<notin> fst ` set (visited_items key_path rest)"
    if "q \<in> fst ` set (visited (key_path @ [key]) original_value)" for q
  proof
    assume "q \<in> fst ` set (visited_items key_path rest)"
    then obtain x where "(q, x) \<in> set (visited_items key_path rest)" by auto
    from visited_paths(2)[OF this] obtain k s where k: "q = key_path @ k # s" "k \<in> fst ` set rest"
      by blast
    from that obtain y where "(q, y) \<in> set (visited (key_path @ [key]) original_value)" by auto
    from visited_paths(1)[OF this] obtain s' where "q = (key_path @ [key]) @ s'" by blast
    with k(1) have "k = key" by simp
    with k(2) 9(3) show False by simp
  qed
  with a b show ?case by auto
qed simp_all

lemma get_path_visited:
  "uniq_keys T \<Longrightarrow> get_path T p = Some v \<Longrightarrow> \<not> is_dict v \<Longrightarrow>
   (key_path @ p, v) \<in> set (visited key_path T)"
  "distinct (map fst items) \<Longrightarrow> uniq_items items \<Longrightarrow> map_of items k = Some v' \<Longrightarrow>
   get_path v' ks = Some v \<Longrightarrow> \<not> is_dict v \<Longrightarrow>
   (key_path @ k # ks, v) \<in> set (visited_items key_path items)"
proof (induction key_path T and key_path items arbitrary: p and k ks v'
    rule: visited_visited_items.induct)
  case (1 key_path items)
  from 1(3,4) obtain k ks where p: "p = k # ks" by (cases p) auto
  with 1(3) obtain v' where "map_of items k = Some v'" "get_path v' ks = Some v"
    by (auto split: option.splits)
  with 1(1)[of k v' ks] 1(2,4) p show ?case by simp
next
  case (9 key_path key original_value rest)
  show ?case
  proof (cases "k = key")
    case True
    with 9(5) have "v' = original_value" by simp
    with 9(1)[of ks] 9(4,6,7) True show ?thesis by simp
  next
    case False
    with 9(2)[of k v' ks] 9(3-7) show ?thesis by simp
  qed
qed (auto split: list.splits elim: get_path.elims)

lemma count_list_distinct: "distinct xs \<Longrightarrow> x \<in> set xs \<Longrightarrow> count_list xs x = 1"
  by (induction xs) auto

lemma visited_once:
  assumes "uniq_keys T" and "get_path T p = Some v" and "\<not> is_dict v"
  shows "count_list (map fst (visited key_path T)) (key_path @ p) = 1"
proof -
  have "(key_path @ p, v) \<in> set (visited key_path T)"
    using assms by (rule get_path_visited(1))
  then have "key_path @ p \<in> set (map fst (visited key_path T))" by force
  with visited_distinct(1)[OF assms(1)] show ?thesis by (rule count_list_distinct)
qed

lemma rebuild_entry_cong:
  "ss wk = ss' wk \<Longrightarrow> rebuild_entry rt ss key wk v = rebuild_entry rt ss' key wk v"
  by (simp add: rebuild_entry_def)

lemma int_abc_restored:
  "ss wk = Some (VStr ''abc'') \<Longrightarrow>
   rebuild_entry rt ss key wk (VInt n) =
     (VInt n, [StError_invalid_input key (VStr ''abc'') ValueError,
               Warn_ValueError wk (VStr ''abc'') ValueError])"
  by (simp add: rebuild_entry_def rebuild_leaf_def coerce_def int_of_str_def is_int_space_def strip_def
      isspace_def is_decimal_def)

text \<open>
  C6, amended. In a settings tree with an int entry whose identifier holds the text
  \<^verbatim>\<open>abc\<close> in the session state, the rebuild returns a tree (it has no exception to
  raise) with the original int at that path. Its events are those of the entries it
  visits, one entry after the other; the int entry is visited once, and its events are
  the one diagnostic of the handler of line 199 on its two channels: one
  \<^verbatim>\<open>st.error\<close> for the user and one \<^verbatim>\<open>logging.warning\<close> for the log. What is rebuilt
  at an entry with another identifier is the same whatever the session state holds for
  the failed one. An entry at another path with the same identifier reads the same text
  of the session state and is left out.
\<close>

theorem int_abc_keeps_original:
  assumes "uniq_keys T" and "p \<noteq> []" and "get_path T p = Some (VInt n)"
    and "ss (join_path (key_path @ p)) = Some (VStr ''abc'')"
  shows "get_path (fst (build_updated_settings rt ss T key_path)) p = Some (VInt n)
    \<and> snd (build_updated_settings rt ss T key_path) = entry_events rt ss (visited key_path T)
    \<and> count_list (map fst (visited key_path T)) (key_path @ p) = 1
    \<and> rebuild_entry rt ss (last p) (join_path (key_path @ p)) (VInt n) =
        (VInt n, [StError_invalid_input (last p) (VStr ''abc'') ValueError,
                  Warn_ValueError (join_path (key_path @ p)) (VStr ''abc'') ValueError])
    \<and> length (filter is_st_error
          (snd (rebuild_entry rt ss (last p) (join_path (key_path @ p)) (VInt n)))) = 1
    \<and> length (filter (\<lambda>ev. \<not> is_st_error ev)
          (snd (rebuild_entry rt ss (last p) (join_path (key_path @ p)) (VInt n)))) = 1
    \<and> (\<forall>q v w. q \<noteq> [] \<and> get_path T q = Some v \<and> \<not> is_dict v
          \<and> join_path (key_path @ q) \<noteq> join_path (key_path @ p) \<longrightarrow>
          get_path (fst (build_updated_settings rt (ss(join_path (key_path @ p) \<mapsto> w)) T key_path)) q
            = get_path (fst (build_updated_settings rt ss T key_path)) q)"
proof -
  have e: "rebuild_entry rt ss (last p) (join_path (key_path @ p)) (VInt n) =
        (VInt n, [StError_invalid_input (last p) (VStr ''abc'') ValueError,
                  Warn_ValueError (join_path (key_path @ p)) (VStr ''abc'') ValueError])"
    using assms(4) by (rule int_abc_restored)
  have "get_path (fst (build_updated_settings rt ss T key_path)) p =
      Some (rebuilt_value rt ss (key_path @ butlast p) (last p) (VInt n))"
    using assms(1-3) by (rule get_path_rebuilt)
  with e assms(2) have g: "get_path (fst (build_updated_settings rt ss T key_path)) p = Some (VInt n)"
    by (simp add: rebuilt_value_leaf)
  from assms(2,3) have "is_dict T" by (cases p) (auto dest: get_path_is_dict)
  then have ev: "snd (build_updated_settings rt ss T key_path) = entry_events rt ss (visited key_path T)"
    by (simp add: build_events(1))
  have once: "count_list (map fst (visited key_path T)) (key_path @ p) = 1"
    using assms(1,3) by (rule visited_once) simp
  have other: "get_path (fst (build_updated_settings rt (ss(join_path (key_path @ p) \<mapsto> w)) T key_path)) q
      = get_path (fst (build_updated_settings rt ss T key_path)) q"
    if q: "q \<noteq> []" "get_path T q = Some v" "\<not> is_dict v"
      "join_path (key_path @ q) \<noteq> join_path (key_path @ p)" for q v w
  proof -
    let ?ss' = "ss(join_path (key_path @ p) \<mapsto> w)"
    have "rebuild_entry rt ?ss' (last q) (join_path (key_path @ q)) v =
        rebuild_entry rt ss (last q) (join_path (key_path @ q)) v"
      using q(4) by (intro rebuild_entry_cong) simp
    then have "rebuilt_value rt ?ss' (key_path @ butlast q) (last q) v =
        rebuilt_value rt ss (key_path @ butlast q) (last q) v"
      using q(1,3) by (simp add: rebuilt_value_leaf)
    then show ?thesis
      using get_path_rebuilt[OF assms(1) q(1,2), of rt ?ss' key_path]
        get_path_rebuilt[OF assms(1) q(1,2), of rt ss key_path] by simp
  qed
  have one: "length (filter is_st_error
        (snd (rebuild_entry rt ss (last p) (join_path (key_path @ p)) (VInt n)))) = 1"
      "length (filter (\<lambda>ev. \<not> is_st_error ev)
        (snd (rebuild_entry rt ss (last p) (join_path (key_path @ p)) (VInt n)))) = 1"
    by (simp_all add: e)
  from g ev once e one other show ?thesis by blast
qed


theorem int_abc_keeps_original_witness:
  "uniq_keys (VDict [(''global'', VDict [(''threads'', VInt 2), (''mode'', VStr ''prod'')])])
   \<and> get_path (VDict [(''global'', VDict [(''threads'', VInt 2), (''mode'', VStr ''prod'')])])
         [''global'', ''threads''] = Some (VInt 2)
   \<and> [''global_threads'' \<mapsto> VStr ''abc'', ''global_mode'' \<mapsto> VStr ''dev'']
         (join_path ([] @ [''global'', ''threads''])) = Some (VStr ''abc'')
   \<and> build_updated_settings example_runtime
         [''global_threads'' \<mapsto> VStr ''abc'', ''global_mode'' \<mapsto> VStr ''dev'']
         (VDict [(''global'', VDict [(''threads'', VInt 2), (''mode'', VStr ''prod'')])]) []
       = (VDict [(''global'', VDict [(''threads'', VInt 2), (''mode'', VStr ''dev'')])],
          [StError_invalid_input ''threads'' (VStr ''abc'') ValueError,
           Warn_ValueError ''global_threads'' (VStr ''abc'') ValueError])
   \<and> get_path (fst (build_updated_settings example_runtime
         [''global_threads'' \<mapsto> VStr ''3'', ''global_mode'' \<mapsto> VStr ''dev'']
         (VDict [(''global'', VDict [(''threads'', VInt 2), (''mode'', VStr ''prod'')])]) []))
         [''global'', ''mode''] = Some (VStr ''dev'')"
  using int_abc_keeps_original [of
      "VDict [(''global'', VDict [(''threads'', VInt 2), (''mode'', VStr ''prod'')])]"
      "[''global'', ''threads'']" 2
      "[''global_threads'' \<mapsto> VStr ''abc'', ''global_mode'' \<mapsto> VStr ''dev'']" "[]"
      example_runtime]
  by (simp add: join_path_def rebuild_entry_def rebuild_leaf_def coerce_def int_of_str_def is_int_space_def
      strip_def isspace_def is_decimal_def digit_val_def)

text \<open>
  The claim as stated fails for two entries with one identifier. In
  \<^verbatim>\<open>{"a_b": 1, "a": {"b": 2}}\<close> the paths \<^verbatim>\<open>a_b\<close> and \<^verbatim>\<open>a, b\<close> are both looked up
  under \<^verbatim>\<open>a_b\<close>: with the text \<^verbatim>\<open>abc\<close> there both entries fail, each with its own
  diagnostic, and the second keeps its 2, where it is 7 with the text \<^verbatim>\<open>7\<close>.
\<close>

theorem same_identifier_counterexample:
  "uniq_keys (VDict [(''a_b'', VInt 1), (''a'', VDict [(''b'', VInt 2)])] :: rat val)
   \<and> get_path (VDict [(''a_b'', VInt 1), (''a'', VDict [(''b'', VInt 2)])] :: rat val) [''a_b'']
       = Some (VInt 1)
   \<and> join_path [''a_b''] = join_path [''a'', ''b'']
   \<and> build_updated_settings example_runtime [''a_b'' \<mapsto> VStr ''abc'']
        (VDict [(''a_b'', VInt 1), (''a'', VDict [(''b'', VInt 2)])]) []
       = (VDict [(''a_b'', VInt 1), (''a'', VDict [(''b'', VInt 2)])],
          [StError_invalid_input ''a_b'' (VStr ''abc'') ValueError,
           Warn_ValueError ''a_b'' (VStr ''abc'') ValueError,
           StError_invalid_input ''b'' (VStr ''abc'') ValueError,
           Warn_ValueError ''a_b'' (VStr ''abc'') ValueError])
   \<and> build_updated_settings example_runtime [''a_b'' \<mapsto> VStr ''7'']
        (VDict [(''a_b'', VInt 1), (''a'', VDict [(''b'', VInt 2)])]) []
       = (VDict [(''a_b'', VInt 7), (''a'', VDict [(''b'', VInt 7)])], [])
   \<and> get_path (fst (build_updated_settings example_runtime [''a_b'' \<mapsto> VStr ''abc'']
        (VDict [(''a_b'', VInt 1), (''a'', VDict [(''b'', VInt 2)])]) [])) [''a'', ''b'']
       \<noteq> get_path (fst (build_updated_settings example_runtime [''a_b'' \<mapsto> VStr ''7'']
        (VDict [(''a_b'', VInt 1), (''a'', VDict [(''b'', VInt 2)])]) [])) [''a'', ''b'']"
  by (simp add: join_path_def rebuild_entry_def rebuild_leaf_def coerce_def int_of_str_def
      is_int_space_def strip_def isspace_def is_decimal_def digit_val_def Let_def)

subsection \<open>Identifiers that collide\<close>

text \<open>
  C1 says that distinct key paths of one tree, with keys of letters, digits and
  underscores, never join to the same identifier. The separator of the join is the
  underscore itself, so it fails: the tree below holds each key once, its two entries
  have distinct key paths and one identifier, and one edit is written to both.
\<close>

theorem join_path_collision:
  "uniq_keys (VDict [(''google_sheets'', VDict [(''id'', VStr ''x'')]),
                     (''google'', VDict [(''sheets_id'', VStr ''y'')])])
   \<and> map fst (visited [] (VDict [(''google_sheets'', VDict [(''id'', VStr ''x'')]),
                                 (''google'', VDict [(''sheets_id'', VStr ''y'')])]))
       = [[''google_sheets'', ''id''], [''google'', ''sheets_id'']]
   \<and> join_path [''google_sheets'', ''id''] = ''google_sheets_id''
   \<and> join_path [''google'', ''sheets_id''] = ''google_sheets_id''
   \<and> fst (build_updated_settings rt [''google_sheets_id'' \<mapsto> VStr ''z'']
          (VDict [(''google_sheets'', VDict [(''id'', VStr ''x'')]),
                  (''google'', VDict [(''sheets_id'', VStr ''y'')])]) [])
       = VDict [(''google_sheets'', VDict [(''id'', VStr ''z'')]),
                (''google'', VDict [(''sheets_id'', VStr ''z'')])]"
  by (simp add: join_path_def rebuild_entry_def rebuild_leaf_def coerce_def)

subsection \<open>The entry serial_numbers\<close>

text \<open>
  The scenario of C7: \<^verbatim>\<open>[1, 2]\<close> edited to the three lines 3, xx and 4 is rebuilt
  to \<^verbatim>\<open>[3, 4]\<close> with one warning, for xx.
\<close>

lemma serial_numbers_scenario:
  "build_updated_settings rt
     [''serial_numbers'' \<mapsto> VStr (''3'' @ [CHR 0x0A] @ ''xx'' @ [CHR 0x0A] @ ''4'')]
     (VDict [(''serial_numbers'', VList [VInt 1, VInt 2])]) []
   = (VDict [(''serial_numbers'', VList [VInt 3, VInt 4])],
      [Warn_invalid_serial ''xx'' ''serial_numbers''])"
  by (simp add: join_path_def rebuild_entry_def rebuild_leaf_def coerce_def coerce_list_def
      string_list_keys_def splitlines_def is_line_boundary_def strip_def isspace_def
      isdigit_def isdigit_char_def int_of_str_def is_int_space_def is_decimal_def digit_val_def Let_def)

text \<open>
  C7 says that every line of digits is kept and every other non-empty line dropped with
  a warning. Line 183 tests \<^verbatim>\<open>isdigit()\<close>, which holds of the superscript two
  (U+00B2), and line 184 calls \<^verbatim>\<open>int()\<close>, which raises ValueError on it: the handler
  of line 199 then puts the whole original list back, and the line 3 before it is lost.
\<close>

theorem serial_numbers_superscript_digit:
  "isdigit [CHR 0xB2] \<and> int_of_str [CHR 0xB2] = Inl ValueError
   \<and> build_updated_settings rt
        [''serial_numbers'' \<mapsto> VStr (''3'' @ [CHR 0x0A, CHR 0xB2])]
        (VDict [(''serial_numbers'', VList [VInt 1, VInt 2])]) []
      = (VDict [(''serial_numbers'', VList [VInt 1, VInt 2])],
         [StError_invalid_input ''serial_numbers'' (VStr (''3'' @ [CHR 0x0A, CHR 0xB2])) ValueError,
          Warn_ValueError ''serial_numbers'' (VStr (''3'' @ [CHR 0x0A, CHR 0xB2])) ValueError])"
  by (simp add: join_path_def rebuild_entry_def rebuild_leaf_def coerce_def coerce_list_def
      string_list_keys_def splitlines_def is_line_boundary_def strip_def isspace_def
      isdigit_def isdigit_char_def int_of_str_def is_int_space_def is_decimal_def digit_val_def Let_def)

subsection \<open>The entry session_types\<close>

lemma session_types_entry:
  assumes "ss wk = Some w"
  shows "rebuild_entry rt ss ''session_types'' wk (VList xs) =
     (if PYYAML_AVAILABLE rt then
        (case yaml_safe_load rt (py_str rt w) of
           Inl e \<Rightarrow>
             (VList xs,
              if e = ValueError
              then [StError_invalid_input ''session_types'' w ValueError, Warn_ValueError wk w ValueError]
              else [StError_processing ''session_types'' e, Warn_Exception wk w e])
         | Inr parsed_yaml \<Rightarrow> (if is_list parsed_yaml then parsed_yaml else VList xs, []))
      else (VList xs, [Warn_list_reverted ''session_types'' wk]))"
  using assms
  by (auto simp: rebuild_entry_def rebuild_leaf_def coerce_def coerce_list_def string_list_keys_def
      split: sum.splits pyerr.splits)

text \<open>
  C8, amended. A list entry named \<^verbatim>\<open>session_types\<close> whose identifier is in the session
  state is rebuilt, when PyYAML is there, from \<^verbatim>\<open>safe_load\<close> of the edited text: if the
  load raises, the original list is kept and the handler reports it (one
  \<^verbatim>\<open>st.error\<close>, one warning); if it returns something that is no list, the original
  list is kept and nothing is reported; if it returns a list, that list is the new
  value. Without PyYAML the original list is kept with one warning.
\<close>

theorem session_types_rebuild:
  assumes "uniq_keys T" and "p \<noteq> []" and "last p = ''session_types''"
    and "get_path T p = Some (VList xs)" and "ss (join_path (key_path @ p)) = Some w"
  shows "get_path (fst (build_updated_settings rt ss T key_path)) p =
        Some (fst (rebuild_entry rt ss ''session_types'' (join_path (key_path @ p)) (VList xs)))
    \<and> rebuild_entry rt ss ''session_types'' (join_path (key_path @ p)) (VList xs) =
       (if PYYAML_AVAILABLE rt then
          (case yaml_safe_load rt (py_str rt w) of
             Inl e \<Rightarrow>
               (VList xs,
                if e = ValueError
                then [StError_invalid_input ''session_types'' w ValueError,
                      Warn_ValueError (join_path (key_path @ p)) w ValueError]
                else [StError_processing ''session_types'' e,
                      Warn_Exception (join_path (key_path @ p)) w e])
           | Inr parsed_yaml \<Rightarrow> (if is_list parsed_yaml then parsed_yaml else VList xs, []))
        else (VList xs, [Warn_list_reverted ''session_types'' (join_path (key_path @ p))]))"
proof -
  have "get_path (fst (build_updated_settings rt ss T key_path)) p =
      Some (rebuilt_value rt ss (key_path @ butlast p) (last p) (VList xs))"
    using assms(1,2,4) by (rule get_path_rebuilt)
  also have "rebuilt_value rt ss (key_path @ butlast p) (last p) (VList xs) =
      fst (rebuild_entry rt ss (last p) (join_path (key_path @ p)) (VList xs))"
    using assms(2) by (intro rebuilt_value_leaf) simp_all
  finally have "get_path (fst (build_updated_settings rt ss T key_path)) p =
        Some (fst (rebuild_entry rt ss ''session_types'' (join_path (key_path @ p)) (VList xs)))"
    using assms(3) by simp
  with session_types_entry[of ss "join_path (key_path @ p)" w rt xs] assms(5) show ?thesis by simp
qed

theorem session_types_rebuild_witness:
  "uniq_keys (VDict [(''session_types'', VList [VDict [(''name'', VStr ''a'')]])])
   \<and> last [''session_types''] = ''session_types''
   \<and> get_path (VDict [(''session_types'', VList [VDict [(''name'', VStr ''a'')]])]) [''session_types'']
       = Some (VList [VDict [(''name'', VStr ''a'')]])
   \<and> [''session_types'' \<mapsto> VStr ''- name: [''] (join_path ([] @ [''session_types'']))
       = Some (VStr ''- name: ['')
   \<and> build_updated_settings example_runtime [''session_types'' \<mapsto> VStr ''- name: ['']
        (VDict [(''session_types'', VList [VDict [(''name'', VStr ''a'')]])]) []
      = (VDict [(''session_types'', VList [VDict [(''name'', VStr ''a'')]])],
         [StError_processing ''session_types'' YAMLError,
          Warn_Exception ''session_types'' (VStr ''- name: ['') YAMLError])"
  using session_types_rebuild [of "VDict [(''session_types'', VList [VDict [(''name'', VStr ''a'')]])]"
      "[''session_types'']" "[VDict [(''name'', VStr ''a'')]]"
      "[''session_types'' \<mapsto> VStr ''- name: ['']" "[]" "VStr ''- name: [''" example_runtime]
  by (simp add: join_path_def example_runtime_def)

text \<open>
  The claim as stated fails where the document is no list: \<^verbatim>\<open>safe_load("42")\<close> is
  the int 42, the original list is kept, and no event is reported.
\<close>

theorem session_types_not_a_list_counterexample:
  "yaml_safe_load example_runtime ''42'' = Inr (VInt 42)
   \<and> build_updated_settings example_runtime [''session_types'' \<mapsto> VStr ''42'']
        (VDict [(''session_types'', VList [VDict [(''name'', VStr ''a'')]])]) []
      = (VDict [(''session_types'', VList [VDict [(''name'', VStr ''a'')]])], [])"
  by (simp add: join_path_def example_runtime_def rebuild_entry_def rebuild_leaf_def coerce_def
      coerce_list_def string_list_keys_def)

subsection \<open>Lines and digits\<close>

text \<open>
  Lines with no boundary in them come back from \<^verbatim>\<open>splitlines\<close> after a join with
  LF, and \<^verbatim>\<open>int()\<close> reads back the \<^verbatim>\<open>str()\<close> of a natural number.
\<close>

lemma split_lines_no_boundary:
  "\<not> list_ex is_line_boundary s \<Longrightarrow>
   split_lines False cur (s @ rest) = split_lines False (cur @ s) rest"
proof (induction s arbitrary: cur)
  case Nil
  then show ?case by simp
next
  case (Cons c s)
  then show ?case by simp
qed

lemma is_line_boundary_LF: "is_line_boundary (CHR 0x0A)"
  by (simp add: is_line_boundary_def)

lemma split_lines_LF:
  "split_lines False cur (CHR 0x0A # rest) = cur # split_lines False [] rest"
  by (simp add: is_line_boundary_LF)

lemma splitlines_join:
  assumes "list_all (\<lambda>s. s \<noteq> [] \<and> \<not> list_ex is_line_boundary s) ss"
  shows "splitlines (str_join [CHR 0x0A] ss) = ss"
  using assms
proof (induction ss)
  case Nil
  then show ?case by (simp add: splitlines_def)
next
  case (Cons x xs)
  from Cons.prems have x: "x \<noteq> []" "\<not> list_ex is_line_boundary x" by simp_all
  show ?case
  proof (cases xs)
    case Nil
    with x split_lines_no_boundary[of x "[]" "[]"] show ?thesis
      by (simp add: splitlines_def)
  next
    case (Cons y ys)
    have "split_lines False [] (x @ CHR 0x0A # str_join [CHR 0x0A] xs) =
        split_lines False x (CHR 0x0A # str_join [CHR 0x0A] xs)"
      using x(2) split_lines_no_boundary[of x "[]"] by simp
    also have "\<dots> = x # split_lines False [] (str_join [CHR 0x0A] xs)"
      by (rule split_lines_LF)
    finally show ?thesis using Cons Cons.IH Cons.prems by (simp add: splitlines_def)
  qed
qed

lemma digit_val_digit_char: "d < 10 \<Longrightarrow> digit_val (digit_char d) = d"
  by (simp add: digit_val_def digit_char_def)

lemma is_decimal_digit_char: "d < 10 \<Longrightarrow> is_decimal (digit_char d)"
  by (simp add: is_decimal_def digit_char_def)

lemma str_of_nat_decimal: "list_all is_decimal (str_of_nat n)"
proof (induction n rule: str_of_nat.induct)
  case (1 n)
  show ?case
  proof (cases "n < 10")
    case True
    then show ?thesis by (subst str_of_nat.simps) (simp add: is_decimal_digit_char)
  next
    case False
    with 1 show ?thesis by (subst str_of_nat.simps) (simp add: is_decimal_digit_char)
  qed
qed

lemma str_of_nat_nonempty: "str_of_nat n \<noteq> []"
  by (subst str_of_nat.simps) simp

lemma parse_digits_decimal:
  "list_all is_decimal s \<Longrightarrow> s \<noteq> [] \<or> prev \<Longrightarrow>
   parse_digits prev acc s = Some (foldl (\<lambda>a c. 10 * a + digit_val c) acc s)"
  by (induction s arbitrary: prev acc) auto

lemma foldl_str_of_nat: "foldl (\<lambda>a c. 10 * a + digit_val c) 0 (str_of_nat n) = n"
proof (induction n rule: str_of_nat.induct)
  case (1 n)
  show ?case
  proof (cases "n < 10")
    case True
    then show ?thesis by (subst str_of_nat.simps) (simp add: digit_val_digit_char)
  next
    case False
    with 1 show ?thesis by (subst str_of_nat.simps) (simp add: digit_val_digit_char)
  qed
qed

lemma is_decimal_not_space: "is_decimal c \<Longrightarrow> \<not> isspace c"
  by (auto simp: is_decimal_def isspace_def Let_def)

lemma is_decimal_not_boundary: "is_decimal c \<Longrightarrow> \<not> is_line_boundary c"
  by (auto simp: is_decimal_def is_line_boundary_def Let_def)

lemma is_decimal_isdigit_char: "is_decimal c \<Longrightarrow> isdigit_char c"
  by (auto simp: is_decimal_def isdigit_char_def Let_def)

lemma is_decimal_not_sign: "is_decimal c \<Longrightarrow> c \<noteq> CHR ''-'' \<and> c \<noteq> CHR ''+''"
  by (auto simp: is_decimal_def)

lemma strip_decimal: "list_all is_decimal s \<Longrightarrow> strip s = s"
proof -
  assume a: "list_all is_decimal s"
  have "dropWhile isspace t = t" if "list_all is_decimal t" for t
    using that by (cases t) (auto dest: is_decimal_not_space)
  moreover have "list_all is_decimal (rev s)" using a by (simp add: list_all_iff)
  ultimately show ?thesis using a by (simp add: strip_def)
qed

lemma is_decimal_not_int_space: "is_decimal c \<Longrightarrow> \<not> is_int_space c"
  by (auto simp: is_decimal_def is_int_space_def Let_def)

lemma int_strip_decimal:
  assumes "list_all is_decimal s"
  shows "rev (dropWhile is_int_space (rev (dropWhile is_int_space s))) = s"
proof -
  have "dropWhile is_int_space t = t" if "list_all is_decimal t" for t
    using that by (cases t) (auto dest: is_decimal_not_int_space)
  moreover have "list_all is_decimal (rev s)" using assms by (simp add: list_all_iff)
  ultimately show ?thesis using assms by simp
qed

lemma int_of_str_decimal:
  assumes "list_all is_decimal s" and "s \<noteq> []"
  shows "int_of_str s = Inr (int (foldl (\<lambda>a c. 10 * a + digit_val c) 0 s))"
proof -
  from assms obtain c cs where s: "s = c # cs" by (cases s) auto
  with assms(1) have "c \<noteq> CHR ''-''" "c \<noteq> CHR ''+''" by (auto dest: is_decimal_not_sign)
  with s int_strip_decimal[OF assms(1)] parse_digits_decimal[OF assms(1), of False 0] show ?thesis
    by (simp add: int_of_str_def)
qed

lemma int_of_str_str_of_nat: "int_of_str (str_of_nat n) = Inr (int n)"
  using int_of_str_decimal[OF str_of_nat_decimal str_of_nat_nonempty, of n]
  by (simp add: foldl_str_of_nat)

lemma isdigit_decimal: "list_all is_decimal s \<Longrightarrow> s \<noteq> [] \<Longrightarrow> isdigit s"
  by (auto simp: isdigit_def list_all_iff dest: is_decimal_isdigit_char)

subsection \<open>What the page renders\<close>

text \<open>
  Where \<^verbatim>\<open>render_setting\<close> returns, it has given each entry that is no dict one
  widget, in the order of \<^verbatim>\<open>visited\<close>, and no key twice. Where the page returns, it
  has rendered every top-level key once, the common keys first.
\<close>

lemma widgets_of_simps [simp]:
  "widgets_of rt [] = []"
  "widgets_of rt ((p, v) # vs) = (join_path p, leaf_widget_value rt (last p) v) # widgets_of rt vs"
  "widgets_of rt (vs @ ws) = widgets_of rt vs @ widgets_of rt ws"
  by (simp_all add: widgets_of_def)

lemma widgets_of_keys: "map fst (widgets_of rt vs) = map (\<lambda>(p, x). join_path p) vs"
  by (simp add: widgets_of_def case_prod_beta comp_def)

lemma render_widget_Inr:
  "render_widget rt key_path v ws = Inr ws' \<Longrightarrow>
   ws' = ws @ [(join_path key_path, leaf_widget_value rt (last key_path) v)]
   \<and> join_path key_path \<notin> set (map fst ws) \<and> key_path \<noteq> []"
  by (auto simp: render_widget_def split: if_splits)

lemma render_widgets:
  "render_setting rt key_path v ws = Inr ws' \<Longrightarrow> ws' = ws @ widgets_of rt (visited key_path v)"
  "render_items rt key_path items ws = Inr ws' \<Longrightarrow>
   ws' = ws @ widgets_of rt (visited_items key_path items)"
proof (induction rt key_path v ws and rt key_path items ws arbitrary: ws' and ws'
    rule: render_setting_render_items.induct)
  case (1 rt key_path items ws)
  then show ?case by (simp split: if_splits)
next
  case (9 rt key_path sub_key sub_value rest ws)
  from 9(3) obtain ws1 where r1: "render_setting rt (key_path @ [sub_key]) sub_value ws = Inr ws1"
    and r2: "render_items rt key_path rest ws1 = Inr ws'"
    by (auto split: sum.splits)
  from 9(1)[OF r1] 9(2)[OF r1 r2] show ?case by simp
qed (auto dest!: render_widget_Inr)

lemma render_distinct:
  "render_setting rt key_path v ws = Inr ws' \<Longrightarrow> distinct (map fst ws) \<Longrightarrow> distinct (map fst ws')"
  "render_items rt key_path items ws = Inr ws' \<Longrightarrow> distinct (map fst ws) \<Longrightarrow>
   distinct (map fst ws')"
proof (induction rt key_path v ws and rt key_path items ws arbitrary: ws' and ws'
    rule: render_setting_render_items.induct)
  case (1 rt key_path items ws)
  then show ?case by (simp split: if_splits)
next
  case (9 rt key_path sub_key sub_value rest ws)
  from 9(3) obtain ws1 where r1: "render_setting rt (key_path @ [sub_key]) sub_value ws = Inr ws1"
    and r2: "render_items rt key_path rest ws1 = Inr ws'"
    by (auto split: sum.splits)
  from 9(1)[OF r1 9(4)] have "distinct (map fst ws1)" .
  with 9(2)[OF r1 r2] show ?case .
qed (auto dest!: render_widget_Inr)

lemma render_newsletters_items:
  "render_newsletters rt top_key items ws = render_items rt [top_key] items ws"
  by (induction items arbitrary: ws) (auto split: sum.splits)

lemma render_top_setting: "render_top rt top_key v ws = render_setting rt [top_key] v ws"
  by (cases v) (simp_all add: render_top_def render_newsletters_items)

lemma render_common_widgets:
  "render_common rt settings cs ws = Inr ws' \<Longrightarrow>
   ws' = ws @ concat (map (top_widgets rt settings) cs)"
proof (induction cs arbitrary: ws)
  case Nil
  then show ?case by simp
next
  case (Cons k cs)
  show ?case
  proof (cases "map_of settings k")
    case None
    with Cons show ?thesis by (simp add: top_widgets_def)
  next
    case (Some v)
    with Cons.prems obtain ws1 where r1: "render_setting rt [k] v ws = Inr ws1"
      and r2: "render_common rt settings cs ws1 = Inr ws'"
      by (auto simp: render_top_setting split: sum.splits)
    from render_widgets(1)[OF r1] Cons.IH[OF r2] Some show ?thesis
      by (simp add: top_widgets_def)
  qed
qed

lemma render_common_distinct:
  "render_common rt settings cs ws = Inr ws' \<Longrightarrow> distinct (map fst ws) \<Longrightarrow>
   distinct (map fst ws')"
proof (induction cs arbitrary: ws)
  case Nil
  then show ?case by simp
next
  case (Cons k cs)
  show ?case
  proof (cases "map_of settings k")
    case None
    with Cons show ?thesis by simp
  next
    case (Some v)
    with Cons.prems obtain ws1 where r1: "render_setting rt [k] v ws = Inr ws1"
      and r2: "render_common rt settings cs ws1 = Inr ws'"
      by (auto simp: render_top_setting split: sum.splits)
    from render_distinct(1)[OF r1 Cons.prems(2)] have "distinct (map fst ws1)" .
    with Cons.IH[OF r2] show ?thesis .
  qed
qed

lemma render_others_widgets:
  "render_others rt settings ks ws = Inr ws' \<Longrightarrow>
   ws' = ws @ concat (map (top_widgets rt settings) ks)"
proof (induction ks arbitrary: ws)
  case Nil
  then show ?case by simp
next
  case (Cons k ks)
  from Cons.prems obtain v ws1 where v: "map_of settings k = Some v"
    and r1: "render_setting rt [k] v ws = Inr ws1"
    and r2: "render_others rt settings ks ws1 = Inr ws'"
    by (auto split: option.splits sum.splits)
  from render_widgets(1)[OF r1] Cons.IH[OF r2] v show ?case
    by (simp add: top_widgets_def)
qed

lemma render_others_distinct:
  "render_others rt settings ks ws = Inr ws' \<Longrightarrow> distinct (map fst ws) \<Longrightarrow>
   distinct (map fst ws')"
proof (induction ks arbitrary: ws)
  case Nil
  then show ?case by simp
next
  case (Cons k ks)
  from Cons.prems obtain v ws1 where v: "map_of settings k = Some v"
    and r1: "render_setting rt [k] v ws = Inr ws1"
    and r2: "render_others rt settings ks ws1 = Inr ws'"
    by (auto split: option.splits sum.splits)
  from render_distinct(1)[OF r1 Cons.prems(2)] have "distinct (map fst ws1)" .
  with Cons.IH[OF r2] show ?case .
qed

lemma render_page_widgets:
  assumes "render_page rt settings = Inr ws"
  shows "ws = concat (map (top_widgets rt settings) common_keys) @
          concat (map (top_widgets rt settings)
             (filter (\<lambda>k. k \<notin> set common_keys) (map fst settings)))"
    and "distinct (map fst ws)"
proof -
  from assms obtain ws1 where r1: "render_common rt settings common_keys [] = Inr ws1"
    and r2: "render_others rt settings
        (filter (\<lambda>k. k \<notin> set common_keys) (map fst settings)) ws1 = Inr ws"
    by (auto simp: render_page_def split: sum.splits)
  from render_common_widgets[OF r1] render_others_widgets[OF r2]
  show "ws = concat (map (top_widgets rt settings) common_keys) @
          concat (map (top_widgets rt settings)
             (filter (\<lambda>k. k \<notin> set common_keys) (map fst settings)))"
    by simp
  from render_common_distinct[OF r1] have "distinct (map fst ws1)" by simp
  with render_others_distinct[OF r2] show "distinct (map fst ws)" .
qed

lemma mset_concat_remove:
  "distinct xs \<Longrightarrow> c \<in> set xs \<Longrightarrow>
   mset (concat (map g xs)) = mset (g c) + mset (concat (map g (filter (\<lambda>k. k \<noteq> c) xs)))"
proof (induction xs)
  case Nil
  then show ?case by simp
next
  case (Cons x xs)
  show ?case
  proof (cases "x = c")
    case True
    with Cons.prems have "filter (\<lambda>k. k \<noteq> c) xs = xs" by (auto simp: filter_id_conv)
    with True show ?thesis by simp
  next
    case False
    with Cons show ?thesis by simp
  qed
qed

lemma mset_concat_common_first:
  assumes "distinct ks" and "\<And>k. k \<notin> set ks \<Longrightarrow> g k = []"
  shows "distinct cs \<Longrightarrow>
    mset (concat (map g cs)) + mset (concat (map g (filter (\<lambda>k. k \<notin> set cs) ks))) =
    mset (concat (map g ks))"
proof (induction cs)
  case Nil
  then show ?case by simp
next
  case (Cons c cs)
  let ?rest = "filter (\<lambda>k. k \<notin> set cs) ks"
  have f: "filter (\<lambda>k. k \<notin> set (c # cs)) ks = filter (\<lambda>k. k \<noteq> c) ?rest"
    by (induction ks) auto
  have IH: "mset (concat (map g cs)) + mset (concat (map g ?rest)) = mset (concat (map g ks))"
    using Cons by simp
  show ?case
  proof (cases "c \<in> set ks")
    case True
    with Cons.prems have "c \<in> set ?rest" by simp
    moreover have "distinct ?rest" using assms(1) by simp
    ultimately have "mset (concat (map g ?rest)) =
        mset (g c) + mset (concat (map g (filter (\<lambda>k. k \<noteq> c) ?rest)))"
      by (rule mset_concat_remove[rotated])
    with IH f show ?thesis by (simp add: ac_simps)
  next
    case False
    then have "filter (\<lambda>k. k \<noteq> c) ?rest = ?rest" by (intro filter_True) auto
    with IH f assms(2)[OF False] show ?thesis by simp
  qed
qed

lemma visited_items_top:
  "distinct (map fst settings) \<Longrightarrow> set items \<subseteq> set settings \<Longrightarrow>
   widgets_of rt (visited_items [] items) = concat (map (top_widgets rt settings) (map fst items))"
proof (induction items)
  case Nil
  then show ?case by simp
next
  case (Cons kv items)
  obtain k v where kv: "kv = (k, v)" by (cases kv)
  have "map_of settings k = Some v" using Cons.prems kv by simp
  then have "top_widgets rt settings k = widgets_of rt (visited [k] v)"
    by (simp add: top_widgets_def)
  with Cons kv show ?case by simp
qed

lemma common_keys_distinct: "distinct common_keys"
  by (simp add: common_keys_def)

lemma render_page_permutation:
  assumes "distinct (map fst settings)" and "render_page rt settings = Inr ws"
  shows "mset ws = mset (widgets_of rt (visited_items [] settings))"
proof -
  let ?g = "top_widgets rt settings"
  have none: "?g k = []" if "k \<notin> set (map fst settings)" for k
  proof -
    have "map_of settings k = None" using that by (simp add: map_of_eq_None_iff)
    then show ?thesis by (simp add: top_widgets_def)
  qed
  have "mset (concat (map ?g common_keys)) +
      mset (concat (map ?g (filter (\<lambda>k. k \<notin> set common_keys) (map fst settings)))) =
      mset (concat (map ?g (map fst settings)))"
    using assms(1) none common_keys_distinct by (rule mset_concat_common_first)
  moreover have "widgets_of rt (visited_items [] settings) = concat (map ?g (map fst settings))"
    using assms(1) by (rule visited_items_top) simp
  ultimately show ?thesis by (simp add: render_page_widgets(1)[OF assms(2)])
qed

subsection \<open>The reads of the rebuild\<close>

text \<open>
  With its reads recorded the rebuild returns the same tree and the same events, and it
  looks up the identifier of every entry that is no dict, in the order of
  \<^verbatim>\<open>visited\<close>; started on a value that is no dict it looks nothing up.
\<close>

lemma reads_same_result:
  "fst (build_updated_settings_reads rt ss v key_path) = build_updated_settings rt ss v key_path"
  "fst (build_items_reads rt ss items key_path updated_dict evs reads) =
     build_items rt ss items key_path updated_dict evs"
proof (induction rt ss v key_path and rt ss items key_path updated_dict evs reads
    rule: build_updated_settings_reads_build_items_reads.induct)
  case (1 rt ss items key_path)
  then show ?case by (simp add: case_prod_beta)
next
  case (9 rt ss key original_value rest key_path updated_dict evs reads)
  show ?case
  proof (cases "is_dict original_value")
    case True
    obtain v es rs where b:
      "build_updated_settings_reads rt ss original_value (key_path @ [key]) = ((v, es), rs)"
      by (cases "build_updated_settings_reads rt ss original_value (key_path @ [key])") auto
    from 9(1)[OF refl refl True] b
    have "build_updated_settings rt ss original_value (key_path @ [key]) = (v, es)" by simp
    with 9(2)[OF refl refl True b[symmetric] refl] b True show ?thesis by simp
  next
    case False
    obtain v es where b:
      "rebuild_entry rt ss key (join_path (key_path @ [key])) original_value = (v, es)"
      by (cases "rebuild_entry rt ss key (join_path (key_path @ [key])) original_value")
    from 9(3)[OF refl refl False b[symmetric]] b False show ?thesis by simp
  qed
qed simp_all

lemma reads_visited:
  "snd (build_updated_settings_reads rt ss v key_path) =
     (if is_dict v then map (\<lambda>(p, x). join_path p) (visited key_path v) else [])"
  "snd (build_items_reads rt ss items key_path updated_dict evs reads) =
     reads @ map (\<lambda>(p, x). join_path p) (visited_items key_path items)"
proof (induction rt ss v key_path and rt ss items key_path updated_dict evs reads
    rule: build_updated_settings_reads_build_items_reads.induct)
  case (1 rt ss items key_path)
  then show ?case by (simp add: case_prod_beta)
next
  case (9 rt ss key original_value rest key_path updated_dict evs reads)
  show ?case
  proof (cases "is_dict original_value")
    case True
    obtain v es rs where b:
      "build_updated_settings_reads rt ss original_value (key_path @ [key]) = ((v, es), rs)"
      by (cases "build_updated_settings_reads rt ss original_value (key_path @ [key])") auto
    from 9(1)[OF refl refl True] b True
    have "rs = map (\<lambda>(p, x). join_path p) (visited (key_path @ [key]) original_value)" by simp
    with 9(2)[OF refl refl True b[symmetric] refl] b True show ?thesis by simp
  next
    case False
    obtain v es where b:
      "rebuild_entry rt ss key (join_path (key_path @ [key])) original_value = (v, es)"
      by (cases "rebuild_entry rt ss key (join_path (key_path @ [key])) original_value")
    from 9(3)[OF refl refl False b[symmetric]] b False show ?thesis
      by (simp add: visited_not_dict)
  qed
qed simp_all

subsection \<open>When the page renders\<close>

text \<open>
  \<^verbatim>\<open>render_setting\<close> returns exactly where its key path is not empty, every number is
  within the bounds of its number input and no identifier repeats; the page, whose key
  paths are never empty, exactly where this holds of all the entries of the settings.
\<close>

lemma renders_from_Nil [simp]: "renders_from rt ws []"
  by (simp add: renders_from_def)

lemma keys_not_in:
  "list_all (\<lambda>(p, v). join_path p \<notin> S) vs \<longleftrightarrow> set (map (\<lambda>(p, v). join_path p) vs) \<inter> S = {}"
  by (induction vs) auto

lemma renders_from_append:
  "renders_from rt ws (vs1 @ vs2) \<longleftrightarrow>
   renders_from rt ws vs1 \<and> renders_from rt (ws @ widgets_of rt vs1) vs2"
  unfolding renders_from_def keys_not_in map_append widgets_of_keys list_all_append
    distinct_append set_append
  by blast

lemma render_widget_returns:
  "(\<exists>ws'. render_widget rt key_path v ws = Inr ws') \<longleftrightarrow>
     key_path \<noteq> [] \<and> renders_from rt ws [(key_path, v)]"
  by (auto simp: render_widget_def renders_from_def)

lemma render_returns:
  "(\<exists>ws'. render_setting rt key_path v ws = Inr ws') \<longleftrightarrow>
     key_path \<noteq> [] \<and> renders_from rt ws (visited key_path v)"
  "(\<exists>ws'. render_items rt key_path items ws = Inr ws') \<longleftrightarrow>
     renders_from rt ws (visited_items key_path items)"
proof (induction rt key_path v ws and rt key_path items ws
    rule: render_setting_render_items.induct)
  case (1 rt key_path items ws)
  then show ?case by simp
next
  case (9 rt key_path sub_key sub_value rest ws)
  show ?case
  proof (cases "render_setting rt (key_path @ [sub_key]) sub_value ws")
    case (Inl e)
    with 9(1) have "\<not> renders_from rt ws (visited (key_path @ [sub_key]) sub_value)" by simp
    with Inl show ?thesis by (simp add: renders_from_append)
  next
    case (Inr ws1)
    with 9(1) have a: "renders_from rt ws (visited (key_path @ [sub_key]) sub_value)" by simp
    from render_widgets(1)[OF Inr]
    have ws1: "ws1 = ws @ widgets_of rt (visited (key_path @ [sub_key]) sub_value)" .
    from 9(2)[OF Inr] Inr a ws1 show ?thesis by (simp add: renders_from_append)
  qed
qed (simp_all add: render_widget_returns)


lemma top_widgets_visited: "top_widgets rt settings k = widgets_of rt (top_visited settings k)"
  by (simp add: top_widgets_def top_visited_def split: option.splits)

lemma widgets_of_concat:
  "widgets_of rt (concat (map (top_visited settings) ks)) = concat (map (top_widgets rt settings) ks)"
  by (induction ks) (simp_all add: top_widgets_visited)

lemma render_common_returns:
  "(\<exists>ws'. render_common rt settings cs ws = Inr ws') \<longleftrightarrow>
     renders_from rt ws (concat (map (top_visited settings) cs))"
proof (induction cs arbitrary: ws)
  case Nil
  then show ?case by simp
next
  case (Cons k cs)
  show ?case
  proof (cases "map_of settings k")
    case None
    with Cons show ?thesis by (simp add: top_visited_def)
  next
    case (Some v)
    show ?thesis
    proof (cases "render_setting rt [k] v ws")
      case (Inl e)
      with render_returns(1)[of rt "[k]" v ws] have "\<not> renders_from rt ws (visited [k] v)" by simp
      with Inl Some show ?thesis
        by (simp add: top_visited_def render_top_setting renders_from_append)
    next
      case (Inr ws1)
      with render_returns(1)[of rt "[k]" v ws] have a: "renders_from rt ws (visited [k] v)" by simp
      from render_widgets(1)[OF Inr] have ws1: "ws1 = ws @ widgets_of rt (visited [k] v)" .
      from Cons.IH[of ws1] Inr Some a ws1 show ?thesis
        by (simp add: top_visited_def render_top_setting renders_from_append)
    qed
  qed
qed

lemma render_others_returns:
  "set ks \<subseteq> set (map fst settings) \<Longrightarrow>
   (\<exists>ws'. render_others rt settings ks ws = Inr ws') \<longleftrightarrow>
     renders_from rt ws (concat (map (top_visited settings) ks))"
proof (induction ks arbitrary: ws)
  case Nil
  then show ?case by simp
next
  case (Cons k ks)
  from Cons.prems have "k \<in> fst ` set settings" by simp
  then obtain v where Some: "map_of settings k = Some v"
    by (cases "map_of settings k") (auto simp: map_of_eq_None_iff)
  from Cons.prems have sub: "set ks \<subseteq> set (map fst settings)" by simp
  show ?case
  proof (cases "render_setting rt [k] v ws")
    case (Inl e)
    with render_returns(1)[of rt "[k]" v ws] have "\<not> renders_from rt ws (visited [k] v)" by simp
    with Inl Some show ?thesis
      by (simp add: top_visited_def renders_from_append)
  next
    case (Inr ws1)
    with render_returns(1)[of rt "[k]" v ws] have a: "renders_from rt ws (visited [k] v)" by simp
    from render_widgets(1)[OF Inr] have ws1: "ws1 = ws @ widgets_of rt (visited [k] v)" .
    from Cons.IH[OF sub, of ws1] Inr Some a ws1 show ?thesis
      by (simp add: top_visited_def renders_from_append)
  qed
qed

lemma visited_items_top_visited:
  "distinct (map fst settings) \<Longrightarrow> set items \<subseteq> set settings \<Longrightarrow>
   visited_items [] items = concat (map (top_visited settings) (map fst items))"
proof (induction items)
  case Nil
  then show ?case by simp
next
  case (Cons kv items)
  obtain k v where kv: "kv = (k, v)" by (cases kv)
  have "map_of settings k = Some v" using Cons.prems kv by simp
  then have "top_visited settings k = visited [k] v"
    by (simp add: top_visited_def)
  with Cons kv show ?case by simp
qed

lemma renders_from_mset:
  assumes "mset vs = mset vs'"
  shows "renders_from rt [] vs \<longleftrightarrow> renders_from rt [] vs'"
proof -
  from assms have s: "set vs = set vs'" by (rule mset_eq_setD)
  from assms have "mset (map (\<lambda>(p, v). join_path p) vs) = mset (map (\<lambda>(p, v). join_path p) vs')"
    by (metis mset_map)
  then have "distinct (map (\<lambda>(p, v). join_path p) vs) \<longleftrightarrow> distinct (map (\<lambda>(p, v). join_path p) vs')"
    by (rule mset_eq_imp_distinct_iff)
  with s show ?thesis by (simp add: renders_from_def list_all_iff)
qed

lemma render_page_renders_from:
  assumes "distinct (map fst settings)"
  shows "(\<exists>ws. render_page rt settings = Inr ws) \<longleftrightarrow> renders_from rt [] (visited_items [] settings)"
proof -
  let ?g = "top_visited settings"
  let ?others = "filter (\<lambda>k. k \<notin> set common_keys) (map fst settings)"
  have none: "?g k = []" if "k \<notin> set (map fst settings)" for k
  proof -
    have "map_of settings k = None" using that by (simp add: map_of_eq_None_iff)
    then show ?thesis by (simp add: top_visited_def)
  qed
  have "mset (concat (map ?g common_keys)) + mset (concat (map ?g ?others)) =
      mset (concat (map ?g (map fst settings)))"
    using assms none common_keys_distinct by (rule mset_concat_common_first)
  moreover have "visited_items [] settings = concat (map ?g (map fst settings))"
    using assms by (rule visited_items_top_visited) simp
  ultimately have m: "mset (concat (map ?g common_keys) @ concat (map ?g ?others)) =
      mset (visited_items [] settings)" by simp
  have sub: "set ?others \<subseteq> set (map fst settings)" by auto
  have "(\<exists>ws. render_page rt settings = Inr ws) \<longleftrightarrow>
      renders_from rt [] (concat (map ?g common_keys) @ concat (map ?g ?others))"
  proof (cases "render_common rt settings common_keys []")
    case (Inl e)
    with render_common_returns[of rt settings common_keys "[]"]
    have "\<not> renders_from rt [] (concat (map ?g common_keys))" by simp
    with Inl show ?thesis by (simp add: render_page_def renders_from_append)
  next
    case (Inr ws1)
    with render_common_returns[of rt settings common_keys "[]"]
    have a: "renders_from rt [] (concat (map ?g common_keys))" by simp
    from render_common_widgets[OF Inr]
    have ws1: "ws1 = widgets_of rt (concat (map ?g common_keys))"
      by (simp add: widgets_of_concat)
    from render_others_returns[OF sub, of rt ws1] Inr a ws1 show ?thesis
      by (simp add: render_page_def renders_from_append)
  qed
  with renders_from_mset[OF m] show ?thesis by simp
qed

subsection \<open>Entries that are read back unchanged\<close>

lemma nth_index_of: "x \<in> set xs \<Longrightarrow> xs ! index_of x xs = x"
  by (induction xs) auto

lemma lower_log_level: "s \<in> set log_level_options \<Longrightarrow> lower s = s"
  by (auto simp: log_level_options_def lower_def lower_char_def)

lemma str_widget_value_unchanged:
  "(key = ''mode'' \<longrightarrow> s \<in> set mode_options) \<Longrightarrow>
   (key = ''log_level'' \<longrightarrow> s \<in> set log_level_options) \<Longrightarrow> str_widget_value key s = s"
  by (auto simp: str_widget_value_def nth_index_of lower_log_level)

lemma plain_lines_strs:
  "list_all plain_line xs \<Longrightarrow>
   \<exists>ss. xs = map VStr ss \<and> list_all (\<lambda>s. s \<noteq> [] \<and> \<not> list_ex is_line_boundary s) ss
      \<and> map strip ss = ss"
proof (induction xs)
  case Nil
  then show ?case by simp
next
  case (Cons x xs)
  then obtain ss where ss: "xs = map VStr ss"
      "list_all (\<lambda>s. s \<noteq> [] \<and> \<not> list_ex is_line_boundary s) ss" "map strip ss = ss"
    by auto
  from Cons.prems obtain s where s: "x = VStr s" "s \<noteq> []" "strip s = s" "\<not> list_ex is_line_boundary s"
    by (cases x) (auto simp: plain_line_def)
  from ss s have "x # xs = map VStr (s # ss)
      \<and> list_all (\<lambda>s. s \<noteq> [] \<and> \<not> list_ex is_line_boundary s) (s # ss) \<and> map strip (s # ss) = s # ss"
    by simp
  then show ?case by (rule exI[where x = "s # ss"])
qed

lemma string_list_rebuilt:
  assumes "list_all plain_line xs"
  shows "map VStr (filter (\<lambda>l. l \<noteq> []) (map strip (splitlines
           (str_join [CHR 0x0A] (map (py_str rt) xs))))) = xs"
proof -
  from plain_lines_strs[OF assms] obtain ss where ss: "xs = map VStr ss"
      "list_all (\<lambda>s. s \<noteq> [] \<and> \<not> list_ex is_line_boundary s) ss" "map strip ss = ss"
    by blast
  have "map (py_str rt) xs = ss" using ss(1) by (simp add: comp_def)
  moreover have "filter (\<lambda>l. l \<noteq> []) ss = ss"
    using ss(2) by (intro filter_True) (simp add: list_all_iff)
  ultimately show ?thesis using ss splitlines_join[OF ss(2)] by simp
qed

lemma nonneg_ints_nats:
  "list_all nonneg_int xs \<Longrightarrow> \<exists>ns. xs = map (\<lambda>n. VInt (int n)) ns"
proof (induction xs)
  case Nil
  then show ?case by simp
next
  case (Cons x xs)
  then obtain ns where ns: "xs = map (\<lambda>n. VInt (int n)) ns" by auto
  from Cons.prems obtain i where "x = VInt i" "0 \<le> i" by (cases x) (auto simp: nonneg_int_def)
  then have "x = VInt (int (nat i))" by simp
  with ns have "x # xs = map (\<lambda>n. VInt (int n)) (nat i # ns)" by simp
  then show ?case by (rule exI[where x = "nat i # ns"])
qed

lemma serial_numbers_loop_nats:
  "serial_numbers_loop wk (map str_of_nat ns) acc evs = (Inr (acc @ map int ns), evs)"
proof (induction ns arbitrary: acc)
  case Nil
  then show ?case by simp
next
  case (Cons n ns)
  have "strip (str_of_nat n) = str_of_nat n" by (rule strip_decimal[OF str_of_nat_decimal])
  moreover have "isdigit (str_of_nat n)"
    by (rule isdigit_decimal[OF str_of_nat_decimal str_of_nat_nonempty])
  ultimately show ?case using Cons[of "acc @ [int n]"] by (simp add: int_of_str_str_of_nat)
qed

lemma serial_numbers_rebuilt:
  assumes "list_all nonneg_int xs"
  shows "coerce_list rt ''serial_numbers'' wk original_value
      (VStr (str_join [CHR 0x0A] (map (py_str rt) xs))) = (Inr (VList xs), [])"
proof -
  from nonneg_ints_nats[OF assms] obtain ns where ns: "xs = map (\<lambda>n. VInt (int n)) ns" by blast
  have strs: "map (py_str rt) xs = map str_of_nat ns"
    unfolding ns by (simp add: comp_def str_of_int_def)
  have "list_all (\<lambda>s. s \<noteq> [] \<and> \<not> list_ex is_line_boundary s) (map str_of_nat ns)"
    using str_of_nat_decimal str_of_nat_nonempty
    by (auto simp: list_all_iff list_ex_iff dest: is_decimal_not_boundary)
  then have sl: "splitlines (str_join [CHR 0x0A] (map str_of_nat ns)) = map str_of_nat ns"
    by (rule splitlines_join)
  have vals: "map (VInt \<circ> int) ns = xs" unfolding ns by (simp add: comp_def)
  show ?thesis
    unfolding strs
    by (simp add: coerce_list_def string_list_keys_def sl serial_numbers_loop_nats vals)
qed

lemma string_list_keys_textarea: "key \<in> set string_list_keys \<Longrightarrow> key \<in> set list_keys_textarea"
  by (auto simp: string_list_keys_def list_keys_textarea_def)

lemma string_list_keys_not_special:
  "key \<in> set string_list_keys \<Longrightarrow> key \<noteq> ''group_id'' \<and> key \<noteq> ''serial_numbers''"
  by (auto simp: string_list_keys_def)

lemma list_shown_unchanged:
  assumes "shown_unchanged rt key (VList xs)"
  shows "fst (rebuild_leaf rt key wk (VList xs) (VStr (list_widget_value rt key xs))) = VList xs"
proof -
  from assms have g: "key \<noteq> ''group_id''" by (auto simp: shown_unchanged_def split: if_splits)
  consider (strings) "key \<in> set string_list_keys" "list_all plain_line xs"
    | (serial) "key \<notin> set string_list_keys" "key = ''serial_numbers''" "list_all nonneg_int xs"
    | (yaml) "key \<notin> set string_list_keys" "key \<noteq> ''serial_numbers''"
        "key = ''session_types''" "PYYAML_AVAILABLE rt" "yaml_round_trip rt xs"
    | (other) "key \<notin> set string_list_keys" "key \<noteq> ''serial_numbers''"
        "\<not> (key = ''session_types'' \<and> PYYAML_AVAILABLE rt)"
    using assms g by (auto simp: shown_unchanged_def split: if_splits)
  then show ?thesis
  proof cases
    case strings
    then show ?thesis
      using g string_list_rebuilt[OF strings(2), of rt] string_list_keys_textarea[OF strings(1)]
      by (simp add: rebuild_leaf_def coerce_def coerce_list_def list_widget_value_def)
  next
    case serial
    with g serial_numbers_rebuilt[OF serial(3), of rt wk "VList xs"] show ?thesis
      by (simp add: rebuild_leaf_def coerce_def list_widget_value_def list_keys_textarea_def)
  next
    case yaml
    then show ?thesis
      using g
      by (auto simp: rebuild_leaf_def coerce_def coerce_list_def yaml_round_trip_def
          split: sum.splits val.splits pyerr.splits)
  next
    case other
    then show ?thesis
      using g by (auto simp: rebuild_leaf_def coerce_def coerce_list_def)
  qed
qed

lemma shown_unchanged_rebuilt:
  assumes "shown_unchanged rt key v" and "\<not> is_dict v"
    and "ss wk = Some (leaf_widget_value rt key v)"
  shows "fst (rebuild_entry rt ss key wk v) = v"
proof (cases v)
  case (VStr s)
  with assms(1) have "str_widget_value key s = s"
    by (intro str_widget_value_unchanged) (auto simp: shown_unchanged_def split: if_splits)
  with VStr assms show ?thesis
    by (auto simp: rebuild_entry_def rebuild_leaf_def coerce_def shown_unchanged_def
        split: if_splits)
next
  case (VList xs)
  with assms list_shown_unchanged[of rt key xs wk] show ?thesis
    by (simp add: rebuild_entry_def)
next
  case VNone
  with assms show ?thesis
    by (auto simp: rebuild_entry_def rebuild_leaf_def coerce_def strip_def)
qed (use assms in \<open>auto simp: rebuild_entry_def rebuild_leaf_def coerce_def\<close>)

lemma rebuild_identity:
  "uniq_keys (v :: 'f val) \<Longrightarrow>
   list_all (\<lambda>(p, x). fst (rebuild_entry rt ss (last p) (join_path p) x) = x) (visited key_path v) \<Longrightarrow>
   fst (build_updated_settings rt ss v key_path) = v"
  "uniq_items (items :: (string \<times> 'f val) list) \<Longrightarrow>
   list_all (\<lambda>(p, x). fst (rebuild_entry rt ss (last p) (join_path p) x) = x)
     (visited_items key_path items) \<Longrightarrow>
   map (\<lambda>(k, v). (k, rebuilt_value rt ss key_path k v)) items = items"
proof (induction key_path v and key_path items rule: visited_visited_items.induct)
  case (1 key_path items)
  then have "map (\<lambda>(k, v). (k, rebuilt_value rt ss key_path k v)) items = items" by simp
  moreover have "fst (build_updated_settings rt ss (VDict items) key_path) =
      VDict (map (\<lambda>(k, v). (k, rebuilt_value rt ss key_path k v)) items)"
    using 1(2) by (intro build_dict_value) simp
  ultimately show ?case by simp
next
  case (9 key_path key original_value rest)
  have "rebuilt_value rt ss key_path key original_value = original_value"
  proof (cases "is_dict original_value")
    case True
    with 9 show ?thesis by (simp add: rebuilt_value_def)
  next
    case False
    with 9(4) show ?thesis by (simp add: rebuilt_value_def visited_not_dict)
  qed
  with 9 show ?case by simp
qed simp_all

lemma visited_no_dict:
  "(p, x) \<in> set (visited key_path (v :: 'f val)) \<Longrightarrow> \<not> is_dict x"
  "(p, x) \<in> set (visited_items key_path (items :: (string \<times> 'f val) list)) \<Longrightarrow> \<not> is_dict x"
  by (induction key_path v and key_path items rule: visited_visited_items.induct) auto

text \<open>
  C5, amended. \<^verbatim>\<open>build_updated_settings_reads\<close> is \<^verbatim>\<open>build_updated_settings\<close> with the
  identifiers it looks up in the session state recorded. Started on the same mapping and
  key path, after any widgets made before, \<^verbatim>\<open>render_setting\<close> either raises (on the
  empty key path, on a number out of the bounds of its number input, on an identifier
  that repeats) or returns, and where it returns the keys of the widgets it has added
  are, in order, the identifiers the rebuild looks up: both recurse into a mapping's
  items in insertion order. The page as a whole renders the common top-level keys first,
  so over all the settings the keys of the widgets of a page that renders are the
  identifiers of the rebuild as a multiset, not as a sequence.
\<close>

theorem render_and_rebuild_identifiers:
  "fst (build_updated_settings_reads rt ss v key_path) = build_updated_settings rt ss v key_path
   \<and> (render_setting rt key_path (VDict items) ws0 = Inr ws \<longrightarrow>
        map fst ws = map fst ws0 @ snd (build_updated_settings_reads rt ss (VDict items) key_path))
   \<and> (distinct (map fst settings) \<and> render_page rt settings = Inr ws' \<longrightarrow>
        mset (map fst ws') = mset (snd (build_updated_settings_reads rt ss (VDict settings) [])))"
proof -
  have a: "map fst ws = map fst ws0 @ snd (build_updated_settings_reads rt ss (VDict items) key_path)"
    if r: "render_setting rt key_path (VDict items) ws0 = Inr ws"
  proof -
    from render_widgets(1)[OF r]
    have "map fst ws = map fst ws0 @ map fst (widgets_of rt (visited key_path (VDict items)))"
      by simp
    then show ?thesis
      by (simp only: widgets_of_keys reads_visited(1) is_dict.simps if_True)
  qed
  have c: "mset (map fst ws') = mset (snd (build_updated_settings_reads rt ss (VDict settings) []))"
    if d: "distinct (map fst settings)" and r: "render_page rt settings = Inr ws'"
  proof -
    from render_page_permutation[OF d r]
    have "mset (map fst ws') = mset (map fst (widgets_of rt (visited_items [] settings)))"
      by (metis mset_map)
    also have "map fst (widgets_of rt (visited_items [] settings)) =
        snd (build_updated_settings_reads rt ss (VDict settings) [])"
      by (simp only: widgets_of_keys reads_visited(1) is_dict.simps if_True visited.simps)
    finally show ?thesis .
  qed
  from a c reads_same_result(1)[of rt ss v key_path] show ?thesis by blast
qed

theorem render_and_rebuild_identifiers_witness:
  "fst (build_updated_settings_reads example_runtime Map.empty
          (VDict [(''threads'', VInt 2), (''mode'', VStr ''prod'')]) [''global''])
     = build_updated_settings example_runtime Map.empty
          (VDict [(''threads'', VInt 2), (''mode'', VStr ''prod'')]) [''global'']
   \<and> render_setting example_runtime [''global'']
         (VDict [(''threads'', VInt 2), (''mode'', VStr ''prod'')]) []
       = Inr [(''global_threads'', VInt 2), (''global_mode'', VStr ''prod'')]
   \<and> map fst [(''global_threads'', VInt 2), (''global_mode'', VStr ''prod'' :: rat val)]
       = map fst ([] :: rat widgets)
         @ snd (build_updated_settings_reads example_runtime Map.empty
             (VDict [(''threads'', VInt 2), (''mode'', VStr ''prod'')]) [''global''])
   \<and> distinct (map fst [(''telegram'', VDict [(''enabled'', VBool True)]),
                         (''global'', VDict [(''threads'', VInt (2::int))])])
   \<and> render_page example_runtime [(''telegram'', VDict [(''enabled'', VBool True)]),
                                   (''global'', VDict [(''threads'', VInt 2)])]
       = Inr [(''global_threads'', VInt 2), (''telegram_enabled'', VBool True)]
   \<and> mset (map fst [(''global_threads'', VInt 2), (''telegram_enabled'', VBool True :: rat val)])
       = mset (snd (build_updated_settings_reads example_runtime Map.empty
           (VDict [(''telegram'', VDict [(''enabled'', VBool True)]),
                   (''global'', VDict [(''threads'', VInt 2)])]) []))"
proof -
  have r1: "render_setting example_runtime [''global'']
         (VDict [(''threads'', VInt 2), (''mode'', VStr ''prod'')]) []
       = Inr [(''global_threads'', VInt 2), (''global_mode'', VStr ''prod'')]"
    by code_simp
  have d: "distinct (map fst [(''telegram'', VDict [(''enabled'', VBool True)]),
                         (''global'', VDict [(''threads'', VInt (2::int))])])"
    by simp
  have r2: "render_page example_runtime [(''telegram'', VDict [(''enabled'', VBool True)]),
                                   (''global'', VDict [(''threads'', VInt 2)])]
       = Inr [(''global_threads'', VInt 2), (''telegram_enabled'', VBool True)]"
    by code_simp
  from render_and_rebuild_identifiers [of example_runtime Map.empty
      "VDict [(''threads'', VInt 2), (''mode'', VStr ''prod'')]" "[''global'']"
      "[(''threads'', VInt 2), (''mode'', VStr ''prod'')]" "[]"
      "[(''global_threads'', VInt 2), (''global_mode'', VStr ''prod'')]"
      "[(''telegram'', VDict [(''enabled'', VBool True)]), (''global'', VDict [(''threads'', VInt 2)])]"
      "[(''global_threads'', VInt 2), (''telegram_enabled'', VBool True)]"]
    r1 d r2
  show ?thesis by simp
qed

text \<open>
  The claim as stated fails for the page: a top-level key that is no common key, placed
  before \<^verbatim>\<open>global\<close>, is looked up first by the rebuild and rendered last.
\<close>

theorem page_order_counterexample:
  "render_page example_runtime [(''telegram'', VDict [(''enabled'', VBool True)]),
                                (''global'', VDict [(''threads'', VInt 2)])]
     = Inr [(''global_threads'', VInt 2), (''telegram_enabled'', VBool True)]
   \<and> snd (build_updated_settings_reads example_runtime Map.empty
        (VDict [(''telegram'', VDict [(''enabled'', VBool True)]),
                (''global'', VDict [(''threads'', VInt 2)])]) [])
     = [''telegram_enabled'', ''global_threads'']
   \<and> [''global_threads'', ''telegram_enabled''] \<noteq> [''telegram_enabled'', ''global_threads'']"
proof -
  have "render_page example_runtime [(''telegram'', VDict [(''enabled'', VBool True)]),
                                (''global'', VDict [(''threads'', VInt 2)])]
     = Inr [(''global_threads'', VInt 2), (''telegram_enabled'', VBool True)]"
    by code_simp
  moreover have "snd (build_updated_settings_reads example_runtime Map.empty
        (VDict [(''telegram'', VDict [(''enabled'', VBool True)]),
                (''global'', VDict [(''threads'', VInt 2)])]) [])
     = [''telegram_enabled'', ''global_threads'']"
    by code_simp
  ultimately show ?thesis by simp
qed

subsection \<open>Round trip\<close>

text \<open>
  C2, amended. Take settings whose dicts hold each key once, whose ints and floats are
  within the bounds of their number inputs, whose entries have pairwise distinct
  identifiers, none of them one of the two session keys of the page itself, and whose
  entries are all shown unchanged: any bool, int, float or None; a string, which under
  \<^verbatim>\<open>mode\<close> or \<^verbatim>\<open>log_level\<close> is one of the options and under \<^verbatim>\<open>group_id\<close> is
  non-empty with no whitespace at its ends; a list, which under the three text-area keys
  for strings holds non-empty one-line strings with no whitespace at their ends, under
  \<^verbatim>\<open>serial_numbers\<close> holds ints that are not negative, under \<^verbatim>\<open>session_types\<close> is
  read back by PyYAML as it was dumped, and is not under \<^verbatim>\<open>group_id\<close>. Then the page
  renders without an exception, and rebuilding from the session state of the unedited
  page gives the settings back.
\<close>

theorem unedited_round_trip:
  assumes "distinct (map fst settings)" and "uniq_items settings"
    and "renders_from rt [] (visited_items [] settings)"
    and "''current_settings_data'' \<notin> set (map (\<lambda>(p, v). join_path p) (visited_items [] settings))"
    and "''settings_fetch_error'' \<notin> set (map (\<lambda>(p, v). join_path p) (visited_items [] settings))"
    and "list_all (\<lambda>(p, v). shown_unchanged rt (last p) v) (visited_items [] settings)"
  shows "\<exists>ws. render_page rt settings = Inr ws
     \<and> fst (build_updated_settings rt (session_after_render settings ws) (VDict settings) [])
       = VDict settings"
proof -
  from assms(1,3) obtain ws where r: "render_page rt settings = Inr ws"
    using render_page_renders_from[of settings rt] by blast
  from render_page_permutation[OF assms(1) r]
  have m: "mset ws = mset (widgets_of rt (visited_items [] settings))" .
  then have ws: "set ws = set (widgets_of rt (visited_items [] settings))"
    by (rule mset_eq_setD)
  from m have "mset (map fst ws) = mset (map fst (widgets_of rt (visited_items [] settings)))"
    by (metis mset_map)
  then have keys: "set (map fst ws) = set (map (\<lambda>(p, v). join_path p) (visited_items [] settings))"
    unfolding widgets_of_keys by (rule mset_eq_setD)
  have dist: "distinct (map fst ws)"
    using r by (rule render_page_widgets(2))
  have "fst (rebuild_entry rt (session_after_render settings ws) (last p) (join_path p) x) = x"
    if px: "(p, x) \<in> set (visited_items [] settings)" for p x
  proof -
    from px have mem: "(join_path p, leaf_widget_value rt (last p) x) \<in> set ws"
      unfolding ws by (force simp: widgets_of_def)
    then have k: "join_path p \<in> set (map fst ws)" by force
    have "join_path p \<noteq> ''current_settings_data''"
      using k assms(4) unfolding keys by metis
    moreover have "join_path p \<noteq> ''settings_fetch_error''"
      using k assms(5) unfolding keys by metis
    moreover note mem dist
    ultimately
    have "session_after_render settings ws (join_path p) = Some (leaf_widget_value rt (last p) x)"
      by (simp add: session_after_render_def)
    moreover from px assms(6) have "shown_unchanged rt (last p) x"
      by (auto simp: list_all_iff)
    moreover from px have "\<not> is_dict x" by (rule visited_no_dict(2))
    ultimately show ?thesis by (intro shown_unchanged_rebuilt)
  qed
  then have "list_all (\<lambda>(p, x).
        fst (rebuild_entry rt (session_after_render settings ws) (last p) (join_path p) x) = x)
      (visited [] (VDict settings))"
    by (auto simp: list_all_iff)
  moreover have "uniq_keys (VDict settings)" using assms(1,2) by simp
  ultimately have "fst (build_updated_settings rt (session_after_render settings ws) (VDict settings) [])
      = VDict settings" by (intro rebuild_identity(1))
  with r show ?thesis by blast
qed

theorem unedited_round_trip_witness:
  "distinct (map fst example_settings) \<and> uniq_items example_settings
   \<and> renders_from example_runtime [] (visited_items [] example_settings)
   \<and> ''current_settings_data'' \<notin> set (map (\<lambda>(p, v). join_path p) (visited_items [] example_settings))
   \<and> ''settings_fetch_error'' \<notin> set (map (\<lambda>(p, v). join_path p) (visited_items [] example_settings))
   \<and> list_all (\<lambda>(p, v). shown_unchanged example_runtime (last p) v) (visited_items [] example_settings)
   \<and> render_page example_runtime example_settings = Inr example_widgets
   \<and> fst (build_updated_settings example_runtime
        (session_after_render example_settings example_widgets) (VDict example_settings) [])
       = VDict example_settings"
proof -
  have h1: "distinct (map fst example_settings)"
    by (simp add: example_settings_def)
  have h2: "uniq_items example_settings"
    by (simp add: example_settings_def)
  have h3: "renders_from example_runtime [] (visited_items [] example_settings)"
    by code_simp
  have h4: "''current_settings_data''
      \<notin> set (map (\<lambda>(p, v). join_path p) (visited_items [] example_settings :: (string list \<times> rat val) list))"
    by code_simp
  have h5: "''settings_fetch_error''
      \<notin> set (map (\<lambda>(p, v). join_path p) (visited_items [] example_settings :: (string list \<times> rat val) list))"
    by code_simp
  have h6: "list_all (\<lambda>(p, v). shown_unchanged example_runtime (last p) v)
      (visited_items [] example_settings)"
    by code_simp
  have r: "render_page example_runtime example_settings = Inr example_widgets"
    by code_simp
  from unedited_round_trip[OF h1 h2 h3 h4 h5 h6] r h1 h2 h3 h4 h5 h6 show ?thesis by simp
qed

text \<open>
  The claim as stated fails where a widget does not show the value: the select box of
  \<^verbatim>\<open>mode\<close> shows its first option for a value that is no option, and that option is
  what the rebuild stores.
\<close>

theorem round_trip_counterexample:
  "render_page example_runtime [(''global'', VDict [(''mode'', VStr ''staging'')])]
     = Inr [(''global_mode'', VStr ''prod'')]
   \<and> fst (build_updated_settings example_runtime
        (session_after_render [(''global'', VDict [(''mode'', VStr ''staging'')])]
           [(''global_mode'', VStr ''prod'')])
        (VDict [(''global'', VDict [(''mode'', VStr ''staging'')])]) [])
     = VDict [(''global'', VDict [(''mode'', VStr ''prod'')])]
   \<and> VDict [(''global'', VDict [(''mode'', VStr ''prod'')])]
     \<noteq> (VDict [(''global'', VDict [(''mode'', VStr ''staging'')])] :: rat val)"
proof -
  have "render_page example_runtime [(''global'', VDict [(''mode'', VStr ''staging'')])]
     = Inr [(''global_mode'', VStr ''prod'')]"
    by code_simp
  moreover have "fst (build_updated_settings example_runtime
        (session_after_render [(''global'', VDict [(''mode'', VStr ''staging'')])]
           [(''global_mode'', VStr ''prod'')])
        (VDict [(''global'', VDict [(''mode'', VStr ''staging'')])]) [])
     = VDict [(''global'', VDict [(''mode'', VStr ''prod'')])]"
    by code_simp
  ultimately show ?thesis by simp
qed

subsection \<open>Further properties\<close>

lemma append_sep_eq:
  "CHR ''_'' \<notin> set x \<Longrightarrow> CHR ''_'' \<notin> set y \<Longrightarrow> x @ CHR ''_'' # r = y @ CHR ''_'' # r' \<Longrightarrow>
   x = y \<and> r = r'"
proof (induction x arbitrary: y)
  case Nil
  then show ?case by (cases y) auto
next
  case (Cons a x)
  then show ?case by (cases y) auto
qed

lemma str_join_Cons:
  "str_join sep (x # xs) = (if xs = [] then x else x @ sep @ str_join sep xs)"
  by (cases xs) simp_all

text \<open>
  Key paths whose keys hold no underscore have distinct identifiers.
\<close>

theorem join_path_injective_without_underscore:
  assumes "list_all (\<lambda>k. CHR ''_'' \<notin> set k) p" and "list_all (\<lambda>k. CHR ''_'' \<notin> set k) q"
    and "p \<noteq> []" and "q \<noteq> []" and "join_path p = join_path q"
  shows "p = q"
  using assms
proof (induction p arbitrary: q)
  case Nil
  then show ?case by simp
next
  case (Cons x xs)
  from Cons.prems(4) obtain y ys where q: "q = y # ys" by (cases q) auto
  from Cons.prems(1) have x: "CHR ''_'' \<notin> set x" by simp
  from Cons.prems(2) q have y: "CHR ''_'' \<notin> set y" by simp
  show ?case
  proof (cases "xs = []")
    case True
    show ?thesis
    proof (cases "ys = []")
      case True
      with \<open>xs = []\<close> Cons.prems(5) q show ?thesis by (simp add: join_path_def)
    next
      case False
      with True Cons.prems(5) q have "x = y @ CHR ''_'' # str_join ''_'' ys"
        by (simp add: join_path_def str_join_Cons)
      then have "CHR ''_'' \<in> set x" by simp
      with x show ?thesis by simp
    qed
  next
    case False
    show ?thesis
    proof (cases "ys = []")
      case True
      with False Cons.prems(5) q have "y = x @ CHR ''_'' # str_join ''_'' xs"
        by (simp add: join_path_def str_join_Cons)
      then have "CHR ''_'' \<in> set y" by simp
      with y show ?thesis by simp
    next
      case ys: False
      with False Cons.prems(5) q
      have "x @ CHR ''_'' # str_join ''_'' xs = y @ CHR ''_'' # str_join ''_'' ys"
        by (simp add: join_path_def str_join_Cons)
      from append_sep_eq[OF x y this] have xy: "x = y" and "join_path xs = join_path ys"
        by (simp_all add: join_path_def)
      with Cons.IH[of ys] Cons.prems(1,2) q False ys have "xs = ys" by simp
      with xy q show ?thesis by simp
    qed
  qed
qed

theorem join_path_injective_without_underscore_witness:
  "list_all (\<lambda>k. CHR ''_'' \<notin> set k) [''global'', ''threads'']
   \<and> [''global'', ''threads''] \<noteq> []
   \<and> join_path [''global'', ''threads''] = join_path [''global'', ''threads'']
   \<and> join_path [''global'', ''threads''] = ''global_threads''"
  using join_path_injective_without_underscore [of "[''global'', ''threads'']" "[''global'', ''threads'']"]
  by (simp add: join_path_def)

text \<open>
  Two scenarios of the specification: the settings
  \<^verbatim>\<open>{"global": {"threads": 2, "mode": "prod"}}\<close> render as two widgets and, with threads
  edited to 3, rebuild with the int 3; the list \<^verbatim>\<open>["a", "b"]\<close> under
  \<^verbatim>\<open>ad_identifiers\<close> renders as two lines and, with a third line added, rebuilds to
  three strings.
\<close>

theorem spec_scenarios:
  "render_page rt [(''global'', VDict [(''threads'', VInt 2), (''mode'', VStr ''prod'')])]
     = Inr [(''global_threads'', VInt 2), (''global_mode'', VStr ''prod'')]
   \<and> build_updated_settings rt [''global_threads'' \<mapsto> VStr ''3'', ''global_mode'' \<mapsto> VStr ''prod'']
        (VDict [(''global'', VDict [(''threads'', VInt 2), (''mode'', VStr ''prod'')])]) []
     = (VDict [(''global'', VDict [(''threads'', VInt 3), (''mode'', VStr ''prod'')])], [])
   \<and> render_page rt [(''ad_identifiers'', VList [VStr ''a'', VStr ''b''])]
     = Inr [(''ad_identifiers'', VStr (''a'' @ [CHR 0x0A] @ ''b''))]
   \<and> build_updated_settings rt
        [''ad_identifiers'' \<mapsto> VStr (''a'' @ [CHR 0x0A] @ ''b'' @ [CHR 0x0A] @ ''c'' @ [CHR 0x0A])]
        (VDict [(''ad_identifiers'', VList [VStr ''a'', VStr ''b''])]) []
     = (VDict [(''ad_identifiers'', VList [VStr ''a'', VStr ''b'', VStr ''c''])], [])"
  by (simp add: join_path_def render_page_def common_keys_def render_top_def render_widget_def
      int_bounds_def number_input_int_def
      str_widget_value_def mode_options_def list_widget_value_def list_keys_textarea_def
      rebuild_entry_def rebuild_leaf_def coerce_def coerce_list_def string_list_keys_def
      int_of_str_def is_int_space_def strip_def isspace_def is_decimal_def digit_val_def
      splitlines_def is_line_boundary_def Let_def)

text \<open>
  Each condition of the round trip is needed. Unedited, a \<^verbatim>\<open>log_level\<close> in capitals
  comes back in lower case, a \<^verbatim>\<open>group_id\<close> and the lines of a text area come back
  stripped and without the empty ones, a negative serial number is dropped, and a string
  under \<^verbatim>\<open>settings_fetch_error\<close>, where the session state holds the None of line 226,
  comes back as the text \<^verbatim>\<open>None\<close>. The page does not render two entries with one
  identifier, 7 threads, or an int beyond \<^verbatim>\<open>2**53 - 1\<close>.
\<close>

theorem round_trip_restrictions:
  "render_page example_runtime [(''log_level'', VStr ''INFO'')] = Inr [(''log_level'', VStr ''info'')]
   \<and> fst (build_updated_settings example_runtime
         (session_after_render [(''log_level'', VStr ''INFO'')] [(''log_level'', VStr ''info'')])
         (VDict [(''log_level'', VStr ''INFO'')]) []) = VDict [(''log_level'', VStr ''info'')]
   \<and> render_page example_runtime [(''group_id'', VStr '' g '')] = Inr [(''group_id'', VStr '' g '')]
   \<and> fst (build_updated_settings example_runtime
         (session_after_render [(''group_id'', VStr '' g '')] [(''group_id'', VStr '' g '')])
         (VDict [(''group_id'', VStr '' g '')]) []) = VDict [(''group_id'', VStr ''g'')]
   \<and> render_page example_runtime [(''sender_email'', VList [VStr '' a'', VStr []])]
       = Inr [(''sender_email'', VStr ('' a'' @ [CHR 0x0A]))]
   \<and> fst (build_updated_settings example_runtime
         (session_after_render [(''sender_email'', VList [VStr '' a'', VStr []])]
            [(''sender_email'', VStr ('' a'' @ [CHR 0x0A]))])
         (VDict [(''sender_email'', VList [VStr '' a'', VStr []])]) [])
       = VDict [(''sender_email'', VList [VStr ''a''])]
   \<and> render_page example_runtime [(''serial_numbers'', VList [VInt (- 1)])]
       = Inr [(''serial_numbers'', VStr ''-1'')]
   \<and> build_updated_settings example_runtime
         (session_after_render [(''serial_numbers'', VList [VInt (- 1)])]
            [(''serial_numbers'', VStr ''-1'')])
         (VDict [(''serial_numbers'', VList [VInt (- 1)])]) []
       = (VDict [(''serial_numbers'', VList [])], [Warn_invalid_serial ''-1'' ''serial_numbers''])
   \<and> render_page example_runtime [(''settings_fetch_error'', VStr ''x'')]
       = Inr [(''settings_fetch_error'', VStr ''x'')]
   \<and> fst (build_updated_settings example_runtime
         (session_after_render [(''settings_fetch_error'', VStr ''x'')]
            [(''settings_fetch_error'', VStr ''x'')])
         (VDict [(''settings_fetch_error'', VStr ''x'')]) [])
       = VDict [(''settings_fetch_error'', VStr ''None'')]
   \<and> render_page example_runtime [(''a_b'', VInt 1), (''a'', VDict [(''b'', VInt 2)])]
       = Inl DuplicateWidgetID
   \<and> render_page example_runtime [(''global'', VDict [(''threads'', VInt 7)])]
       = Inl StreamlitAPIException
   \<and> render_page example_runtime [(''limit'', VInt (2 ^ 53))] = Inl StreamlitAPIException"
  by code_simp


lemma serial_numbers_loop_decimal:
  "list_all (\<lambda>l. isdigit (strip l) \<longrightarrow> list_all is_decimal (strip l)) lines \<Longrightarrow>
   serial_numbers_loop wk lines acc evs =
     (Inr (acc @ map (\<lambda>l. decimal_value (strip l)) (filter (\<lambda>l. isdigit (strip l)) lines)),
      evs @ map (\<lambda>l. Warn_invalid_serial (strip l) wk)
              (filter (\<lambda>l. \<not> isdigit (strip l) \<and> strip l \<noteq> []) lines))"
proof (induction lines arbitrary: acc evs)
  case Nil
  then show ?case by simp
next
  case (Cons l lines)
  show ?case
  proof (cases "isdigit (strip l)")
    case True
    with Cons.prems have d: "list_all is_decimal (strip l)" by simp
    from True have "strip l \<noteq> []" by (simp add: isdigit_def)
    with d have "int_of_str (strip l) = Inr (decimal_value (strip l))"
      by (simp add: int_of_str_decimal decimal_value_def)
    with True Cons show ?thesis by simp
  next
    case False
    with Cons show ?thesis by simp
  qed
qed

text \<open>
  Where every line that passes \<^verbatim>\<open>isdigit()\<close> consists of the digits 0 to 9, the entry
  \<^verbatim>\<open>serial_numbers\<close> is rebuilt as C7 says: the digit lines as ints, in order, and one
  warning for every other line that is not empty.
\<close>

theorem serial_numbers_decimal_lines:
  assumes "list_all (\<lambda>l. isdigit (strip l) \<longrightarrow> list_all is_decimal (strip l))
      (splitlines (py_str rt w))"
  shows "coerce_list rt ''serial_numbers'' wk original_value w =
     (Inr (VList (map (\<lambda>l. VInt (decimal_value (strip l)))
             (filter (\<lambda>l. isdigit (strip l)) (splitlines (py_str rt w))))),
      map (\<lambda>l. Warn_invalid_serial (strip l) wk)
        (filter (\<lambda>l. \<not> isdigit (strip l) \<and> strip l \<noteq> []) (splitlines (py_str rt w))))"
  by (simp add: coerce_list_def string_list_keys_def comp_def serial_numbers_loop_decimal[OF assms])

theorem serial_numbers_decimal_lines_witness:
  "list_all (\<lambda>l. isdigit (strip l) \<longrightarrow> list_all is_decimal (strip l))
      (splitlines (py_str example_runtime (VStr ('' 07 '' @ [CHR 0x0D, CHR 0x0A] @ ''x1'' @ [CHR 0x0A, CHR 0x0A] @ ''12''))))
   \<and> coerce_list example_runtime ''serial_numbers'' ''serial_numbers'' (VList [])
        (VStr ('' 07 '' @ [CHR 0x0D, CHR 0x0A] @ ''x1'' @ [CHR 0x0A, CHR 0x0A] @ ''12''))
     = (Inr (VList [VInt 7, VInt 12]), [Warn_invalid_serial ''x1'' ''serial_numbers''])"
proof -
  have h: "list_all (\<lambda>l. isdigit (strip l) \<longrightarrow> list_all is_decimal (strip l))
      (splitlines (py_str example_runtime (VStr ('' 07 '' @ [CHR 0x0D, CHR 0x0A] @ ''x1'' @ [CHR 0x0A, CHR 0x0A] @ ''12''))))"
    by (simp add: splitlines_def is_line_boundary_def strip_def isspace_def isdigit_def
        isdigit_char_def is_decimal_def)
  from serial_numbers_decimal_lines[OF h, of "''serial_numbers''" "VList []"] h show ?thesis
    by (simp add: splitlines_def is_line_boundary_def strip_def isspace_def isdigit_def
        isdigit_char_def is_decimal_def decimal_value_def digit_val_def)
qed

text \<open>
  When rendering returns. \<^verbatim>\<open>render_setting\<close> returns exactly where its key path is not
  empty, every int and float it reaches is within the bounds of its number input, and
  the identifiers of its entries are pairwise distinct and no key of a widget made
  before. The page renders settings (a dict, with every key once) exactly where all
  their entries are such.
\<close>

theorem render_returns_exactly:
  assumes "distinct (map fst settings)"
  shows "((\<exists>ws. render_page rt settings = Inr ws) \<longleftrightarrow>
            renders_from rt [] (visited_items [] settings))
     \<and> ((\<exists>ws. render_setting rt key_path v ws0 = Inr ws) \<longleftrightarrow>
            key_path \<noteq> [] \<and> renders_from rt ws0 (visited key_path v))"
  using render_page_renders_from[OF assms] render_returns(1) by blast

theorem render_returns_exactly_witness:
  "distinct (map fst example_settings)
   \<and> render_page example_runtime example_settings = Inr example_widgets
   \<and> renders_from example_runtime [] (visited_items [] example_settings)
   \<and> render_setting example_runtime [''threads''] (VInt 7) [] = Inl StreamlitAPIException
   \<and> \<not> renders_from example_runtime [] (visited [''threads''] (VInt 7))"
proof -
  have h1: "distinct (map fst example_settings)"
    by (simp add: example_settings_def)
  have r: "render_page example_runtime example_settings = Inr example_widgets"
    by code_simp
  have n: "render_setting example_runtime [''threads''] (VInt 7) [] = Inl StreamlitAPIException"
    by code_simp
  from render_returns_exactly[OF h1, of example_runtime "[''threads'']" "VInt 7" "[]"] r n h1
  show ?thesis by simp
qed

end
